theory Spec2Isabelle
  imports Complex_Main "HOL-Library.Signed_Division"
begin

section \<open>Time values and the calendar of ECMAScript dates\<close>

text \<open>
  \<^verbatim>\<open>src/App.tsx\<close> computes with JavaScript \<^verbatim>\<open>Date\<close> objects. A \<^verbatim>\<open>Date\<close> holds one time
  value, the number of milliseconds since 1 January 1970 UTC; its getters and setters
  are defined by ECMA-262 (section "Date Objects") through the functions below, which
  keep the names of the standard. Time values are integers here; the binary floating
  point of \<^verbatim>\<open>Number\<close> is exact on the integers that occur and is not modelled.

  The standard stores \<^verbatim>\<open>TimeClip(v)\<close> in a \<^verbatim>\<open>Date\<close>: a value \<open>v\<close> more than 8.64e15 ms from
  the epoch makes the date invalid, and every number computed from an invalid date is
  \<^verbatim>\<open>NaN\<close>. The getters and setters below compute \<open>v\<close> itself. The range check is kept
  beside them: \<open>calculateBreakdown_dates\<close> lists the time values that one call gives to
  its \<^verbatim>\<open>Date\<close> objects, and where \<open>TimeClip\<close> leaves each of them as it is
  (\<open>calculateBreakdown_valid\<close>) the integers of the model are the numbers of the program.
  The theorems about all instants assume this; by \<open>calculateBreakdown_valid_in_range\<close>
  it holds, in a zone of constant offset, for all instants that lie at least 64 days
  inside the range.
\<close>

definition msPerDay :: int where "msPerDay = 86400000"
definition msPerHour :: int where "msPerHour = 3600000"
definition msPerMinute :: int where "msPerMinute = 60000"
definition msPerSecond :: int where "msPerSecond = 1000"

definition Day :: "int \<Rightarrow> int" where
  "Day t = t div msPerDay"

definition TimeWithinDay :: "int \<Rightarrow> int" where
  "TimeWithinDay t = t mod msPerDay"

definition DaysInYear :: "int \<Rightarrow> int" where
  "DaysInYear y =
     (if y mod 4 \<noteq> 0 then 365
      else if y mod 100 \<noteq> 0 then 366
      else if y mod 400 \<noteq> 0 then 365
      else 366)"

definition DayFromYear :: "int \<Rightarrow> int" where
  "DayFromYear y =
     365 * (y - 1970) + (y - 1969) div 4 - (y - 1901) div 100 + (y - 1601) div 400"

text \<open>
  The standard defines \<^verbatim>\<open>YearFromTime(t)\<close> as the largest year whose first day is not
  after \<open>t\<close>. The executable form estimates the year from the mean length of a
  Gregorian year (146097 days in 400 years) and corrects the estimate by at most one;
  \<open>YearFromDay_lower\<close>, \<open>YearFromDay_upper\<close> and \<open>YearFromDay_unique\<close> below show
  that it is the year of the standard.
\<close>

definition YearFromDay :: "int \<Rightarrow> int" where
  "YearFromDay d =
     (let y = 1970 + (400 * d) div 146097 in
      if d < DayFromYear y then y - 1
      else if DayFromYear (y + 1) \<le> d then y + 1
      else y)"

definition YearFromTime :: "int \<Rightarrow> int" where
  "YearFromTime t = YearFromDay (Day t)"

definition InLeapYear :: "int \<Rightarrow> int" where
  "InLeapYear t = (if DaysInYear (YearFromTime t) = 365 then 0 else 1)"

definition DayWithinYear :: "int \<Rightarrow> int" where
  "DayWithinYear t = Day t - DayFromYear (YearFromTime t)"

definition MonthFromTime :: "int \<Rightarrow> int" where
  "MonthFromTime t =
     (let d = DayWithinYear t; l = InLeapYear t in
      if d < 31 then 0
      else if d < 59 + l then 1
      else if d < 90 + l then 2
      else if d < 120 + l then 3
      else if d < 151 + l then 4
      else if d < 181 + l then 5
      else if d < 212 + l then 6
      else if d < 243 + l then 7
      else if d < 273 + l then 8
      else if d < 304 + l then 9
      else if d < 334 + l then 10
      else 11)"

definition DateFromTime :: "int \<Rightarrow> int" where
  "DateFromTime t =
     (let d = DayWithinYear t; l = InLeapYear t; m = MonthFromTime t in
      if m = 0 then d + 1
      else if m = 1 then d - 30
      else if m = 2 then d - 58 - l
      else if m = 3 then d - 89 - l
      else if m = 4 then d - 119 - l
      else if m = 5 then d - 150 - l
      else if m = 6 then d - 180 - l
      else if m = 7 then d - 211 - l
      else if m = 8 then d - 242 - l
      else if m = 9 then d - 272 - l
      else if m = 10 then d - 303 - l
      else d - 333 - l)"

definition HourFromTime :: "int \<Rightarrow> int" where
  "HourFromTime t = (t div msPerHour) mod 24"

definition MinFromTime :: "int \<Rightarrow> int" where
  "MinFromTime t = (t div msPerMinute) mod 60"

definition SecFromTime :: "int \<Rightarrow> int" where
  "SecFromTime t = (t div msPerSecond) mod 60"

definition msFromTime :: "int \<Rightarrow> int" where
  "msFromTime t = t mod msPerSecond"

definition MakeTime :: "int \<Rightarrow> int \<Rightarrow> int \<Rightarrow> int \<Rightarrow> int" where
  "MakeTime hour minute sec ms =
     hour * msPerHour + minute * msPerMinute + sec * msPerSecond + ms"

text \<open>
  \<open>monthStart l mn\<close> is the day within the year on which month \<open>mn\<close> (0 for January)
  begins, \<open>l\<close> being 1 in a leap year; it is the inverse of the table of
  \<open>MonthFromTime\<close>. \<^verbatim>\<open>MakeDay\<close> carries a month outside 0..11 into the year and lets
  the day of the month run over the end of the month (or before its start).
\<close>

definition monthStart :: "int \<Rightarrow> int \<Rightarrow> int" where
  "monthStart l mn =
     (if mn = 0 then 0
      else if mn = 1 then 31
      else if mn = 2 then 59 + l
      else if mn = 3 then 90 + l
      else if mn = 4 then 120 + l
      else if mn = 5 then 151 + l
      else if mn = 6 then 181 + l
      else if mn = 7 then 212 + l
      else if mn = 8 then 243 + l
      else if mn = 9 then 273 + l
      else if mn = 10 then 304 + l
      else 334 + l)"

definition MakeDay :: "int \<Rightarrow> int \<Rightarrow> int \<Rightarrow> int" where
  "MakeDay year month date =
     (let ym = year + month div 12;
          mn = month mod 12;
          l = (if DaysInYear ym = 365 then 0 else 1)
      in DayFromYear ym + monthStart l mn + date - 1)"

definition MakeDate :: "int \<Rightarrow> int \<Rightarrow> int" where
  "MakeDate day time = day * msPerDay + time"

definition MakeFullYear :: "int \<Rightarrow> int" where
  "MakeFullYear year = (if 0 \<le> year \<and> year \<le> 99 then 1900 + year else year)"

definition TimeClip :: "int \<Rightarrow> int option" where
  "TimeClip time = (if \<bar>time\<bar> > 8640000000000000 then None else Some time)"

subsection \<open>The time zone of the host\<close>

text \<open>
  Every getter and setter that \<^verbatim>\<open>App.tsx\<close> calls works on local time: the standard
  converts with \<^verbatim>\<open>LocalTime(t) = t + LocalTZA(t, true)\<close> and
  \<^verbatim>\<open>UTC(t) = t - LocalTZA(t, false)\<close>, where \<^verbatim>\<open>LocalTZA\<close> is the offset of the host's
  time zone. A zone is its offset at the beginning of time and the list of its
  transitions in increasing order, each the UTC instant from which a new offset
  applies. A local time that a transition repeats or skips is read with the offset
  before the transition, as the standard requires.
\<close>

record zone =
  baseOffset :: int
  transitions :: "(int \<times> int) list"

fun offsetAtUTC :: "int \<Rightarrow> (int \<times> int) list \<Rightarrow> int \<Rightarrow> int" where
  "offsetAtUTC cur [] t = cur"
| "offsetAtUTC cur ((u, off) # rest) t =
     (if t < u then cur else offsetAtUTC off rest t)"

fun offsetAtLocal :: "int \<Rightarrow> (int \<times> int) list \<Rightarrow> int \<Rightarrow> int" where
  "offsetAtLocal cur [] t = cur"
| "offsetAtLocal cur ((u, off) # rest) t =
     (if t < u + max cur off then cur else offsetAtLocal off rest t)"

definition LocalTZA :: "zone \<Rightarrow> int \<Rightarrow> bool \<Rightarrow> int" where
  "LocalTZA z t isUTC =
     (if isUTC then offsetAtUTC (baseOffset z) (transitions z) t
      else offsetAtLocal (baseOffset z) (transitions z) t)"

definition LocalTime :: "zone \<Rightarrow> int \<Rightarrow> int" where
  "LocalTime z t = t + LocalTZA z t True"

definition UTC :: "zone \<Rightarrow> int \<Rightarrow> int" where
  "UTC z t = t - LocalTZA z t False"

definition fixedZone :: "int \<Rightarrow> zone" where
  "fixedZone c = \<lparr>baseOffset = c, transitions = []\<rparr>"

subsection \<open>The methods of \<^verbatim>\<open>Date\<close> that the program calls\<close>

text \<open>
  A date is named by its time value, and a setter returns the new time value of the
  object it is called on, before the range check: where the standard stores
  \<^verbatim>\<open>TimeClip(v)\<close> the setter of the model returns \<open>v\<close>. The store in which the objects
  live is added in the section on the store, for the claims about mutation.
\<close>

definition getTime :: "int \<Rightarrow> int" where
  "getTime tv = tv"

definition getFullYear :: "zone \<Rightarrow> int \<Rightarrow> int" where
  "getFullYear z tv = YearFromTime (LocalTime z tv)"

definition getMonth :: "zone \<Rightarrow> int \<Rightarrow> int" where
  "getMonth z tv = MonthFromTime (LocalTime z tv)"

definition getDate :: "zone \<Rightarrow> int \<Rightarrow> int" where
  "getDate z tv = DateFromTime (LocalTime z tv)"

definition getHours :: "zone \<Rightarrow> int \<Rightarrow> int" where
  "getHours z tv = HourFromTime (LocalTime z tv)"

definition getMinutes :: "zone \<Rightarrow> int \<Rightarrow> int" where
  "getMinutes z tv = MinFromTime (LocalTime z tv)"

definition setDate :: "zone \<Rightarrow> int \<Rightarrow> int \<Rightarrow> int" where
  "setDate z tv dt =
     (let t = LocalTime z tv;
          newDate = MakeDate (MakeDay (YearFromTime t) (MonthFromTime t) dt) (TimeWithinDay t)
      in UTC z newDate)"

definition setMonth :: "zone \<Rightarrow> int \<Rightarrow> int \<Rightarrow> int" where
  "setMonth z tv m =
     (let t = LocalTime z tv;
          newDate = MakeDate (MakeDay (YearFromTime t) m (DateFromTime t)) (TimeWithinDay t)
      in UTC z newDate)"

definition setHours :: "zone \<Rightarrow> int \<Rightarrow> int \<Rightarrow> int" where
  "setHours z tv h =
     (let t = LocalTime z tv;
          date = MakeDate (Day t) (MakeTime h (MinFromTime t) (SecFromTime t) (msFromTime t))
      in UTC z date)"

definition setMinutes :: "zone \<Rightarrow> int \<Rightarrow> int \<Rightarrow> int" where
  "setMinutes z tv m =
     (let t = LocalTime z tv;
          date = MakeDate (Day t) (MakeTime (HourFromTime t) m (SecFromTime t) (msFromTime t))
      in UTC z date)"

text \<open>
  \<^verbatim>\<open>new Date(year, month, date)\<close>: local midnight of the given day, again before the
  range check. The constructor reads a year from 0 to 99 as 1900 + year
  (\<open>MakeFullYear\<close>).
\<close>

definition newDateYMD :: "zone \<Rightarrow> int \<Rightarrow> int \<Rightarrow> int \<Rightarrow> int" where
  "newDateYMD z year month date =
     (let yr = MakeFullYear year;
          finalDate = MakeDate (MakeDay yr month date) (MakeTime 0 0 0 0)
      in UTC z finalDate)"

section \<open>The program\<close>

record TimeBreakdown =
  years :: int
  months :: int
  days :: int
  hours :: int
  minutes :: int
  seconds :: int

text \<open>
  \<^verbatim>\<open>new Date('2011-11-09T00:00:00-05:00')\<close> and \<^verbatim>\<open>new Date('2020-12-31T00:00:00-05:00')\<close>:
  the fields of the string are a local time at the offset written after them.
\<close>

definition BREAK_GROUND_DATE :: int where
  "BREAK_GROUND_DATE = MakeDate (MakeDay 2011 10 9) (MakeTime 0 0 0 0) - (- 5 * msPerHour)"

definition PROJECTED_OPEN_DATE :: int where
  "PROJECTED_OPEN_DATE = MakeDate (MakeDay 2020 11 31) (MakeTime 0 0 0 0) - (- 5 * msPerHour)"

definition PLANNED_DURATION_MS :: int where
  "PLANNED_DURATION_MS = getTime PROJECTED_OPEN_DATE - getTime BREAK_GROUND_DATE"

definition addMonthsClamped :: "zone \<Rightarrow> int \<Rightarrow> int \<Rightarrow> int" where
  "addMonthsClamped z date monthsToAdd =
     (let next = getTime date;
          originalDay = getDate z next;
          next = setDate z next 1;
          next = setMonth z next (getMonth z next + monthsToAdd);
          lastDayOfTargetMonth =
            getDate z (newDateYMD z (getFullYear z next) (getMonth z next + 1) 0);
          next = setDate z next (min originalDay lastDayOfTargetMonth)
      in next)"

text \<open>
  \<^verbatim>\<open>Math.floor(a / b)\<close> on integers with \<open>b > 0\<close> is \<open>div\<close>; the remainder operator
  \<^verbatim>\<open>%\<close> of JavaScript takes the sign of the dividend, which is \<open>smod\<close>.
\<close>

definition calculateBreakdown :: "zone \<Rightarrow> int \<Rightarrow> int \<Rightarrow> TimeBreakdown" where
  "calculateBreakdown z startDate now =
     (if now \<le> startDate then
        \<lparr>years = 0, months = 0, days = 0, hours = 0, minutes = 0, seconds = 0\<rparr>
      else
        let start = getTime startDate;
            totalMonths =
              (getFullYear z now - getFullYear z start) * 12 +
              (getMonth z now - getMonth z start);
            anchor = addMonthsClamped z start totalMonths;
            adjustedTotalMonths = (if anchor > now then totalMonths - 1 else totalMonths);
            anchor = (if anchor > now then addMonthsClamped z start adjustedTotalMonths
                      else anchor);
            years = adjustedTotalMonths div 12;
            months = adjustedTotalMonths smod 12;
            remainingMs = getTime now - getTime anchor;
            dayMs = 24 * 60 * 60 * 1000;
            hourMs = 60 * 60 * 1000;
            minuteMs = 60 * 1000;
            days = remainingMs div dayMs;
            anchor = setDate z anchor (getDate z anchor + days);
            remainingMs = getTime now - getTime anchor;
            hours = remainingMs div hourMs;
            anchor = setHours z anchor (getHours z anchor + hours);
            remainingMs = getTime now - getTime anchor;
            minutes = remainingMs div minuteMs;
            anchor = setMinutes z anchor (getMinutes z anchor + minutes);
            remainingMs = getTime now - getTime anchor;
            seconds = remainingMs div 1000
        in \<lparr>years = years, months = months, days = days, hours = hours,
            minutes = minutes, seconds = seconds\<rparr>)"

text \<open>
  \<^verbatim>\<open>calculateOverrunPercent\<close> reads the two constants of the module. Its body is
  \<open>overrunPercent\<close>, with the constants as arguments, so that the branch for a planned
  duration that is not positive can be stated; the quotient is the exact one.
\<close>

definition overrunPercent :: "int \<Rightarrow> int \<Rightarrow> int \<Rightarrow> real" where
  "overrunPercent plannedDurationMs breakGround now =
     (if plannedDurationMs \<le> 0 then 0
      else
        let totalElapsed = getTime now - getTime breakGround;
            overrunMs = totalElapsed - plannedDurationMs
        in if overrunMs \<le> 0 then 0
           else (real_of_int overrunMs / real_of_int plannedDurationMs) * 100)"


subsection \<open>The stages of \<^verbatim>\<open>calculateBreakdown\<close>\<close>

text \<open>
  The claims about the month count and about the loop speak of intermediate values of
  \<^verbatim>\<open>calculateBreakdown\<close>. The definitions below are the stages of its body with the
  text of the source: \<open>totalMonths\<close> is the expression of lines 60 to 62;
  \<open>adjustedTotalMonths\<close> and \<open>monthAnchor\<close> are the two variables that the conditional of
  lines 64 to 70 leaves; \<open>peelUnits\<close> is lines 75 to 93. Lemma
  \<open>calculateBreakdown_stages\<close> shows that \<open>calculateBreakdown\<close> is their composition.
\<close>

definition totalMonths :: "zone \<Rightarrow> int \<Rightarrow> int \<Rightarrow> int" where
  "totalMonths z start now =
     (getFullYear z now - getFullYear z start) * 12 + (getMonth z now - getMonth z start)"

definition adjustedTotalMonths :: "zone \<Rightarrow> int \<Rightarrow> int \<Rightarrow> int" where
  "adjustedTotalMonths z start now =
     (let totalMonths = totalMonths z start now;
          anchor = addMonthsClamped z start totalMonths
      in if anchor > now then totalMonths - 1 else totalMonths)"

definition monthAnchor :: "zone \<Rightarrow> int \<Rightarrow> int \<Rightarrow> int" where
  "monthAnchor z start now =
     (let totalMonths = totalMonths z start now;
          anchor = addMonthsClamped z start totalMonths
      in if anchor > now then addMonthsClamped z start (totalMonths - 1) else anchor)"

definition peelUnits :: "zone \<Rightarrow> int \<Rightarrow> int \<Rightarrow> int \<times> int \<times> int \<times> int" where
  "peelUnits z anchor now =
     (let remainingMs = getTime now - getTime anchor;
          dayMs = 24 * 60 * 60 * 1000;
          hourMs = 60 * 60 * 1000;
          minuteMs = 60 * 1000;
          days = remainingMs div dayMs;
          anchor = setDate z anchor (getDate z anchor + days);
          remainingMs = getTime now - getTime anchor;
          hours = remainingMs div hourMs;
          anchor = setHours z anchor (getHours z anchor + hours);
          remainingMs = getTime now - getTime anchor;
          minutes = remainingMs div minuteMs;
          anchor = setMinutes z anchor (getMinutes z anchor + minutes);
          remainingMs = getTime now - getTime anchor;
          seconds = remainingMs div 1000
      in (days, hours, minutes, seconds))"

subsection \<open>The dates of a call and their range\<close>

text \<open>
  The time values that a call gives to its \<^verbatim>\<open>Date\<close> objects, in the order of the source.
  In \<^verbatim>\<open>addMonthsClamped\<close>: the copy of line 28, \<^verbatim>\<open>next\<close> after lines 31 and 32, the
  temporary date of lines 34 to 38, and \<^verbatim>\<open>next\<close> after line 40. In the loop: \<^verbatim>\<open>anchor\<close>
  after lines 82, 86 and 90. In \<^verbatim>\<open>calculateBreakdown\<close>: the two arguments, and after
  the guard the copy of line 59, the dates of the call of line 64, those of the call of
  line 69 when it is made, and those of the loop. A time value is valid when \<open>TimeClip\<close>
  leaves it as it is.
\<close>

definition validTime :: "int \<Rightarrow> bool" where
  "validTime t = (TimeClip t = Some t)"

definition addMonthsClamped_dates :: "zone \<Rightarrow> int \<Rightarrow> int \<Rightarrow> int list" where
  "addMonthsClamped_dates z date monthsToAdd =
     (let next0 = getTime date;
          originalDay = getDate z next0;
          next1 = setDate z next0 1;
          next2 = setMonth z next1 (getMonth z next1 + monthsToAdd);
          lastDate = newDateYMD z (getFullYear z next2) (getMonth z next2 + 1) 0;
          next3 = setDate z next2 (min originalDay (getDate z lastDate))
      in [next0, next1, next2, lastDate, next3])"

definition peelUnits_dates :: "zone \<Rightarrow> int \<Rightarrow> int \<Rightarrow> int list" where
  "peelUnits_dates z anchor now =
     (let remainingMs = getTime now - getTime anchor;
          days = remainingMs div (24 * 60 * 60 * 1000);
          anchor1 = setDate z anchor (getDate z anchor + days);
          remainingMs = getTime now - getTime anchor1;
          hours = remainingMs div (60 * 60 * 1000);
          anchor2 = setHours z anchor1 (getHours z anchor1 + hours);
          remainingMs = getTime now - getTime anchor2;
          minutes = remainingMs div (60 * 1000);
          anchor3 = setMinutes z anchor2 (getMinutes z anchor2 + minutes)
      in [anchor1, anchor2, anchor3])"

definition calculateBreakdown_dates :: "zone \<Rightarrow> int \<Rightarrow> int \<Rightarrow> int list" where
  "calculateBreakdown_dates z startDate now =
     (if now \<le> startDate then [startDate, now]
      else
        let start = getTime startDate;
            total = totalMonths z start now;
            anchor = addMonthsClamped z start total
        in [startDate, now, start]
           @ addMonthsClamped_dates z start total
           @ (if anchor > now then addMonthsClamped_dates z start (total - 1) else [])
           @ peelUnits_dates z (monthAnchor z start now) now)"

definition addMonthsClamped_valid :: "zone \<Rightarrow> int \<Rightarrow> int \<Rightarrow> bool" where
  "addMonthsClamped_valid z date monthsToAdd =
     list_all validTime (addMonthsClamped_dates z date monthsToAdd)"

definition calculateBreakdown_valid :: "zone \<Rightarrow> int \<Rightarrow> int \<Rightarrow> bool" where
  "calculateBreakdown_valid z startDate now =
     list_all validTime (calculateBreakdown_dates z startDate now)"

section \<open>Notions of the specification\<close>

text \<open>
  \<open>DaysInMonth y mn\<close> is the length of month \<open>mn\<close> (0 for January) of the year \<open>y\<close>, and
  \<open>monthIndex t\<close> counts the months of the calendar up to the month of \<open>t\<close>, so that "N
  months later" is \<open>monthIndex\<close> plus \<open>N\<close>. \<open>clampedLastDay k\<close> is the day that
  \<open>addMonthsClamped\<close> computes as \<^verbatim>\<open>lastDayOfTargetMonth\<close> when the target month has the
  index \<open>k\<close>: the length of that month in the year that the \<^verbatim>\<open>Date\<close> constructor makes
  of the target year.
\<close>

definition DaysInMonth :: "int \<Rightarrow> int \<Rightarrow> int" where
  "DaysInMonth y mn =
     (if mn = 1 then (if DaysInYear y = 365 then 28 else 29)
      else if mn = 3 \<or> mn = 5 \<or> mn = 8 \<or> mn = 10 then 30
      else 31)"

definition monthIndex :: "int \<Rightarrow> int" where
  "monthIndex t = 12 * YearFromTime t + MonthFromTime t"

definition clampedLastDay :: "int \<Rightarrow> int" where
  "clampedLastDay k = DaysInMonth (MakeFullYear (k div 12)) (k mod 12)"

text \<open>
  The alternative to the loop that the specification warns against, in the words of the
  specification: all four units from the one gap between \<open>now\<close> and the month anchor,
  by floor divisions that do not depend on each other. \<open>independentUnits\<close> reduces the
  gap by the next larger unit before it divides; \<open>independentQuotients\<close> does not.
\<close>

definition independentUnits :: "int \<Rightarrow> int \<times> int \<times> int \<times> int" where
  "independentUnits gap =
     (gap div msPerDay,
      (gap mod msPerDay) div msPerHour,
      (gap mod msPerHour) div msPerMinute,
      (gap mod msPerMinute) div msPerSecond)"

definition independentQuotients :: "int \<Rightarrow> int \<times> int \<times> int \<times> int" where
  "independentQuotients gap =
     (gap div msPerDay, gap div msPerHour, gap div msPerMinute, gap div msPerSecond)"

text \<open>
  The clamped month addition of the specification, in its words: the date \<open>N\<close> calendar
  months after \<open>d\<close>, on the day of the month of \<open>d\<close> or, when the target month does not have
  that day, on its last day, at the time of day of \<open>d\<close>. It is written from the calendar
  (\<open>monthIndex\<close>, \<open>DaysInMonth\<close>) and not from \<open>addMonthsClamped\<close>.
\<close>

definition clampedMonthAdvance :: "zone \<Rightarrow> int \<Rightarrow> int \<Rightarrow> int" where
  "clampedMonthAdvance z d N =
     (let t = LocalTime z d;
          k = monthIndex t + N;
          y = k div 12;
          m = k mod 12;
          day = min (DateFromTime t) (DaysInMonth y m)
      in UTC z (MakeDate (MakeDay y m day) (TimeWithinDay t)))"

text \<open>
  The reconstruction law of the specification: \<open>start\<close> advanced by \<open>years * 12 + months\<close>
  clamped calendar months (\<open>clampedMonthAdvance\<close>) and then by the days, hours, minutes
  and seconds of a breakdown. \<open>reconstruct\<close> advances by durations, a day being 24 hours;
  \<open>reconstructCalendar\<close> advances on the local calendar (\<open>advanceUnits\<close>, with the setters
  of \<^verbatim>\<open>Date\<close>).
\<close>

definition advanceUnits :: "zone \<Rightarrow> int \<Rightarrow> TimeBreakdown \<Rightarrow> int" where
  "advanceUnits z t b =
     (let t = setDate z t (getDate z t + days b);
          t = setHours z t (getHours z t + hours b);
          t = setMinutes z t (getMinutes z t + minutes b)
      in t + seconds b * msPerSecond)"

definition reconstruct :: "zone \<Rightarrow> int \<Rightarrow> TimeBreakdown \<Rightarrow> int" where
  "reconstruct z start b =
     clampedMonthAdvance z start (years b * 12 + months b)
       + days b * msPerDay + hours b * msPerHour + minutes b * msPerMinute
       + seconds b * msPerSecond"

definition reconstructCalendar :: "zone \<Rightarrow> int \<Rightarrow> TimeBreakdown \<Rightarrow> int" where
  "reconstructCalendar z start b =
     advanceUnits z (clampedMonthAdvance z start (years b * 12 + months b)) b"

text \<open>
  The zone America/Toronto from 2011 to 2026, after the IANA time zone database: Eastern
  Standard Time (UTC-5) with daylight saving time (UTC-4) from the second Sunday of March,
  07:00 UTC, to the first Sunday of November, 06:00 UTC. The offset written in the two
  constants of the module is the standard time of this zone.
\<close>

definition America_Toronto :: zone where
  "America_Toronto =
     \<lparr>baseOffset = - 5 * msPerHour,
      transitions =
        [(1299999600000, - 4 * msPerHour), (1320559200000, - 5 * msPerHour),
         (1331449200000, - 4 * msPerHour), (1352008800000, - 5 * msPerHour),
         (1362898800000, - 4 * msPerHour), (1383458400000, - 5 * msPerHour),
         (1394348400000, - 4 * msPerHour), (1414908000000, - 5 * msPerHour),
         (1425798000000, - 4 * msPerHour), (1446357600000, - 5 * msPerHour),
         (1457852400000, - 4 * msPerHour), (1478412000000, - 5 * msPerHour),
         (1489302000000, - 4 * msPerHour), (1509861600000, - 5 * msPerHour),
         (1520751600000, - 4 * msPerHour), (1541311200000, - 5 * msPerHour),
         (1552201200000, - 4 * msPerHour), (1572760800000, - 5 * msPerHour),
         (1583650800000, - 4 * msPerHour), (1604210400000, - 5 * msPerHour),
         (1615705200000, - 4 * msPerHour), (1636264800000, - 5 * msPerHour),
         (1647154800000, - 4 * msPerHour), (1667714400000, - 5 * msPerHour),
         (1678604400000, - 4 * msPerHour), (1699164000000, - 5 * msPerHour),
         (1710054000000, - 4 * msPerHour), (1730613600000, - 5 * msPerHour),
         (1741503600000, - 4 * msPerHour), (1762063200000, - 5 * msPerHour),
         (1772953200000, - 4 * msPerHour), (1793512800000, - 5 * msPerHour)]\<rparr>"

text \<open>
  Three more zones of the IANA time zone database, each for the years named. Saint
  Pierre and Miquelon (America/Miquelon) from 2011 to 2026: UTC-3, with daylight saving
  time (UTC-2) by the rule of Toronto, the transitions being at 02:00 local time. The
  start constant of the module is 9 November 2011 02:00 in this zone. Singapore
  (Asia/Singapore) from 1945: UTC+7:30 until 31 December 1981 16:00 UTC and UTC+8 from
  then on, so that the local times from 23:30 to 24:00 of that day do not exist.
  Newfoundland (America/St_Johns) from 2008 to 2010: UTC-3:30, with daylight saving time
  (UTC-2:30) that begins and ends at 00:01 local time; on 1 November 2009 the clocks go
  back from 00:01 to 23:01 of 31 October.
\<close>

definition America_Miquelon :: zone where
  "America_Miquelon =
     \<lparr>baseOffset = - 3 * msPerHour,
      transitions =
        [(1299992400000, - 2 * msPerHour), (1320552000000, - 3 * msPerHour),
         (1331442000000, - 2 * msPerHour), (1352001600000, - 3 * msPerHour),
         (1362891600000, - 2 * msPerHour), (1383451200000, - 3 * msPerHour),
         (1394341200000, - 2 * msPerHour), (1414900800000, - 3 * msPerHour),
         (1425790800000, - 2 * msPerHour), (1446350400000, - 3 * msPerHour),
         (1457845200000, - 2 * msPerHour), (1478404800000, - 3 * msPerHour),
         (1489294800000, - 2 * msPerHour), (1509854400000, - 3 * msPerHour),
         (1520744400000, - 2 * msPerHour), (1541304000000, - 3 * msPerHour),
         (1552194000000, - 2 * msPerHour), (1572753600000, - 3 * msPerHour),
         (1583643600000, - 2 * msPerHour), (1604203200000, - 3 * msPerHour),
         (1615698000000, - 2 * msPerHour), (1636257600000, - 3 * msPerHour),
         (1647147600000, - 2 * msPerHour), (1667707200000, - 3 * msPerHour),
         (1678597200000, - 2 * msPerHour), (1699156800000, - 3 * msPerHour),
         (1710046800000, - 2 * msPerHour), (1730606400000, - 3 * msPerHour),
         (1741496400000, - 2 * msPerHour), (1762056000000, - 3 * msPerHour),
         (1772946000000, - 2 * msPerHour), (1793505600000, - 3 * msPerHour)]\<rparr>"

definition Asia_Singapore :: zone where
  "Asia_Singapore =
     \<lparr>baseOffset = 27000000, transitions = [(378662400000, 28800000)]\<rparr>"

definition America_St_Johns :: zone where
  "America_St_Johns =
     \<lparr>baseOffset = - 12600000,
      transitions =
        [(1205033460000, - 9000000), (1225593060000, - 12600000),
         (1236483060000, - 9000000), (1257042660000, - 12600000),
         (1268537460000, - 9000000), (1289097060000, - 12600000)]\<rparr>"

section \<open>Date objects in a store\<close>

text \<open>
  A \<^verbatim>\<open>Date\<close> is a mutable object, and \<^verbatim>\<open>App.tsx\<close> passes the two constants of the module
  to \<^verbatim>\<open>calculateBreakdown\<close> by reference. For the claims about mutation and hidden
  state the program is written once more over a store: the list of the time values of
  the objects allocated so far, a reference being an index into it. \<^verbatim>\<open>new Date(...)\<close>
  appends an object, a setter updates the object it is called on, and every function
  returns the store it leaves behind. \<open>peelUnits_store\<close> is the loop of lines 75 to 93,
  \<open>tick\<close> the callback of \<^verbatim>\<open>setInterval\<close> (lines 178 to 185) with the clock reading as
  its argument, and \<open>ticks\<close> a run of such callbacks.
\<close>

type_synonym ref = nat
type_synonym store = "int list"

definition newDate :: "store \<Rightarrow> int \<Rightarrow> ref \<times> store" where
  "newDate h tv = (length h, h @ [tv])"

definition addMonthsClamped_store :: "zone \<Rightarrow> store \<Rightarrow> ref \<Rightarrow> int \<Rightarrow> ref \<times> store" where
  "addMonthsClamped_store z h date monthsToAdd =
     (let (next, h) = newDate h (getTime (h ! date));
          originalDay = getDate z (h ! next);
          h = h[next := setDate z (h ! next) 1];
          h = h[next := setMonth z (h ! next) (getMonth z (h ! next) + monthsToAdd)];
          (probe, h) =
            newDate h (newDateYMD z (getFullYear z (h ! next)) (getMonth z (h ! next) + 1) 0);
          lastDayOfTargetMonth = getDate z (h ! probe);
          h = h[next := setDate z (h ! next) (min originalDay lastDayOfTargetMonth)]
      in (next, h))"

definition peelUnits_store ::
    "zone \<Rightarrow> store \<Rightarrow> ref \<Rightarrow> ref \<Rightarrow> (int \<times> int \<times> int \<times> int) \<times> store" where
  "peelUnits_store z h anchor now =
     (let remainingMs = getTime (h ! now) - getTime (h ! anchor);
          dayMs = 24 * 60 * 60 * 1000;
          hourMs = 60 * 60 * 1000;
          minuteMs = 60 * 1000;
          days = remainingMs div dayMs;
          h = h[anchor := setDate z (h ! anchor) (getDate z (h ! anchor) + days)];
          remainingMs = getTime (h ! now) - getTime (h ! anchor);
          hours = remainingMs div hourMs;
          h = h[anchor := setHours z (h ! anchor) (getHours z (h ! anchor) + hours)];
          remainingMs = getTime (h ! now) - getTime (h ! anchor);
          minutes = remainingMs div minuteMs;
          h = h[anchor := setMinutes z (h ! anchor) (getMinutes z (h ! anchor) + minutes)];
          remainingMs = getTime (h ! now) - getTime (h ! anchor);
          seconds = remainingMs div 1000
      in ((days, hours, minutes, seconds), h))"

definition calculateBreakdown_store ::
    "zone \<Rightarrow> store \<Rightarrow> ref \<Rightarrow> ref \<Rightarrow> TimeBreakdown \<times> store" where
  "calculateBreakdown_store z h startDate now =
     (if h ! now \<le> h ! startDate then
        (\<lparr>years = 0, months = 0, days = 0, hours = 0, minutes = 0, seconds = 0\<rparr>, h)
      else
        let (start, h) = newDate h (getTime (h ! startDate));
            totalMonths =
              (getFullYear z (h ! now) - getFullYear z (h ! start)) * 12 +
              (getMonth z (h ! now) - getMonth z (h ! start));
            (anchor, h) = addMonthsClamped_store z h start totalMonths;
            (adjustedTotalMonths, anchor, h) =
              (if h ! anchor > h ! now then
                 let adjustedTotalMonths = totalMonths - 1;
                     (anchor, h) = addMonthsClamped_store z h start adjustedTotalMonths
                 in (adjustedTotalMonths, anchor, h)
               else (totalMonths, anchor, h));
            years = adjustedTotalMonths div 12;
            months = adjustedTotalMonths smod 12;
            ((days, hours, minutes, seconds), h) = peelUnits_store z h anchor now
        in (\<lparr>years = years, months = months, days = days, hours = hours,
             minutes = minutes, seconds = seconds\<rparr>, h))"

definition breakGroundRef :: ref where "breakGroundRef = 0"
definition projectedOpenRef :: ref where "projectedOpenRef = 1"

definition initialStore :: store where
  "initialStore = [BREAK_GROUND_DATE, PROJECTED_OPEN_DATE]"

definition calculateOverrunPercent_store :: "store \<Rightarrow> ref \<Rightarrow> real" where
  "calculateOverrunPercent_store h now =
     (if PLANNED_DURATION_MS \<le> 0 then 0
      else
        let totalElapsed = getTime (h ! now) - getTime (h ! breakGroundRef);
            overrunMs = totalElapsed - PLANNED_DURATION_MS
        in if overrunMs \<le> 0 then 0
           else (real_of_int overrunMs / real_of_int PLANNED_DURATION_MS) * 100)"

definition tick ::
    "zone \<Rightarrow> store \<Rightarrow> int \<Rightarrow> (TimeBreakdown \<times> TimeBreakdown \<times> real) \<times> store" where
  "tick z h clock =
     (let (now, h) = newDate h clock;
          (breakGround, h) = calculateBreakdown_store z h breakGroundRef now;
          (projectedOpen, h) = calculateBreakdown_store z h projectedOpenRef now;
          overrunPercent = calculateOverrunPercent_store h now
      in ((breakGround, projectedOpen, overrunPercent), h))"

fun ticks :: "zone \<Rightarrow> store \<Rightarrow> int list \<Rightarrow> store" where
  "ticks z h [] = h"
| "ticks z h (clock # clocks) = ticks z (snd (tick z h clock)) clocks"


section \<open>The calendar\<close>

subsection \<open>Floor division by a positive number\<close>

lemma div_bounds:
  assumes "0 < k"
  shows "k * (a div k) \<le> (a::int)" and "a < k * (a div k) + k"
proof -
  have "a = k * (a div k) + a mod k" by simp
  moreover have "0 \<le> a mod k" "a mod k < k" using assms by simp_all
  ultimately show "k * (a div k) \<le> a" and "a < k * (a div k) + k" by linarith+
qed

lemma div_eqI:
  assumes "0 < k" "k * q \<le> a" "a < k * q + k"
  shows "(a::int) div k = q"
proof -
  define r where "r = a - k * q"
  have r: "0 \<le> r" "r < k" using assms by (simp_all add: r_def)
  have "a = k * q + r" by (simp add: r_def)
  then have "a div k = (k * q + r) div k" by simp
  also have "\<dots> = q + r div k" using assms(1) by simp
  also have "r div k = 0" using r by simp
  finally show ?thesis by simp
qed

lemma div_step:
  assumes "0 < k"
  shows "((a::int) + 1) div k = a div k + (if (a + 1) mod k = 0 then 1 else 0)"
proof -
  have a: "a + 1 = k * ((a + 1) div k) + (a + 1) mod k" by simp
  have r: "0 \<le> (a + 1) mod k" "(a + 1) mod k < k" using assms by simp_all
  show ?thesis
  proof (cases "(a + 1) mod k = 0")
    case True
    with a have "a + 1 = k * ((a + 1) div k)" by simp
    moreover have "k * ((a + 1) div k - 1) = k * ((a + 1) div k) - k"
      by (simp add: right_diff_distrib)
    ultimately have "k * ((a + 1) div k - 1) \<le> a" "a < k * ((a + 1) div k - 1) + k"
      using assms by linarith+
    then have "a div k = (a + 1) div k - 1" using assms by (rule_tac div_eqI)
    with True show ?thesis by simp
  next
    case False
    with r have "1 \<le> (a + 1) mod k" by linarith
    with a r have "k * ((a + 1) div k) \<le> a" "a < k * ((a + 1) div k) + k" by linarith+
    then have "a div k = (a + 1) div k" using assms by (rule_tac div_eqI)
    with False show ?thesis by simp
  qed
qed

subsection \<open>Years\<close>

text \<open>
  \<open>DayFromYear\<close> is strictly increasing and advances by the length of the year, and
  \<open>YearFromDay d\<close> is the one year whose days contain \<open>d\<close>: the year of the standard.
\<close>

lemma mod_4_100: "(y::int) mod 100 = 0 \<Longrightarrow> y mod 4 = 0"
  using mod_mod_cancel[of 4 100 y] by simp

lemma mod_100_400: "(y::int) mod 400 = 0 \<Longrightarrow> y mod 100 = 0"
  using mod_mod_cancel[of 100 400 y] by simp

lemma DaysInYear_sum:
  "DaysInYear y = 365 + (if y mod 4 = 0 then 1 else 0) - (if y mod 100 = 0 then 1 else 0)
     + (if y mod 400 = 0 then 1 else 0)"
  using mod_4_100[of y] mod_100_400[of y] by (auto simp: DaysInYear_def)

lemma DayFromYear_Suc: "DayFromYear (y + 1) = DayFromYear y + DaysInYear y"
proof -
  define a b c where "a = (y - 1969) div 4" and "b = (y - 1901) div 100"
    and "c = (y - 1601) div 400"
  define i4 i100 i400 :: int where "i4 = (if y mod 4 = 0 then 1 else 0)"
    and "i100 = (if y mod 100 = 0 then 1 else 0)" and "i400 = (if y mod 400 = 0 then 1 else 0)"
  have m4: "(y - 1968) mod 4 = y mod 4"
    using mod_mult_self2[of y 4 "- 492"] by simp
  have m100: "(y - 1900) mod 100 = y mod 100"
    using mod_mult_self2[of y 100 "- 19"] by simp
  have m400: "(y - 1600) mod 400 = y mod 400"
    using mod_mult_self2[of y 400 "- 4"] by simp
  have d4: "(y - 1968) div 4 = a + i4"
    using div_step[of 4 "y - 1969"] m4 by (simp add: a_def i4_def)
  have d100: "(y - 1900) div 100 = b + i100"
    using div_step[of 100 "y - 1901"] m100 by (simp add: b_def i100_def)
  have d400: "(y - 1600) div 400 = c + i400"
    using div_step[of 400 "y - 1601"] m400 by (simp add: c_def i400_def)
  have "DayFromYear (y + 1) =
          365 * (y - 1969) + (y - 1968) div 4 - (y - 1900) div 100 + (y - 1600) div 400"
    by (simp add: DayFromYear_def)
  then have lhs: "DayFromYear (y + 1) = 365 * (y - 1969) + (a + i4) - (b + i100) + (c + i400)"
    by (simp only: d4 d100 d400)
  have rhs: "DayFromYear y = 365 * (y - 1970) + a - b + c"
    by (simp only: DayFromYear_def a_def b_def c_def)
  have "DaysInYear y = 365 + i4 - i100 + i400"
    by (simp only: DaysInYear_sum i4_def i100_def i400_def)
  with lhs rhs show ?thesis by simp
qed

lemma DayFromYear_bounds:
  "400 * DayFromYear y \<le> 146097 * (y - 1970) + 596"
  "146097 * (y - 1970) - 608 \<le> 400 * DayFromYear y"
  using div_bounds[of 4 "y - 1969"] div_bounds[of 100 "y - 1901"] div_bounds[of 400 "y - 1601"]
  unfolding DayFromYear_def by simp_all

lemma DayFromYear_strict_mono: "y < y' \<Longrightarrow> DayFromYear y < DayFromYear y'"
  using DayFromYear_bounds(1)[of y] DayFromYear_bounds(2)[of "y'"] by simp

lemma DayFromYear_mono: "y \<le> y' \<Longrightarrow> DayFromYear y \<le> DayFromYear y'"
  using DayFromYear_strict_mono[of y y'] by (cases "y = y'") simp_all

lemma YearFromDay_estimate:
  assumes "y = 1970 + (400 * d) div 146097"
  shows "DayFromYear (y - 1) \<le> d" and "d < DayFromYear (y + 2)"
  using assms DayFromYear_bounds(1)[of "y - 1"] DayFromYear_bounds(2)[of "y + 2"]
    div_bounds[of 146097 "400 * d"]
  by simp_all

lemma YearFromDay_lower: "DayFromYear (YearFromDay d) \<le> d"
  using YearFromDay_estimate(1)[of "1970 + (400 * d) div 146097" d]
  by (simp add: YearFromDay_def Let_def)

lemma YearFromDay_upper: "d < DayFromYear (YearFromDay d + 1)"
  using YearFromDay_estimate(2)[of "1970 + (400 * d) div 146097" d]
  by (simp add: YearFromDay_def Let_def)

lemma YearFromDay_unique:
  assumes "DayFromYear y \<le> d" "d < DayFromYear (y + 1)"
  shows "YearFromDay d = y"
proof (rule ccontr)
  assume ne: "YearFromDay d \<noteq> y"
  show False
  proof (cases "YearFromDay d < y")
    case True
    then have "DayFromYear (YearFromDay d + 1) \<le> DayFromYear y"
      by (intro DayFromYear_mono) simp
    with assms(1) YearFromDay_upper[of d] show False by simp
  next
    case False
    with ne have "DayFromYear (y + 1) \<le> DayFromYear (YearFromDay d)"
      by (intro DayFromYear_mono) simp
    with assms(2) YearFromDay_lower[of d] show False by simp
  qed
qed

subsection \<open>Months and days of the month\<close>

lemma DaysInYear_cases: "DaysInYear y = 365 \<or> DaysInYear y = 366"
  by (simp add: DaysInYear_def)

lemma DayWithinYear_range: "0 \<le> DayWithinYear t \<and> DayWithinYear t < DaysInYear (YearFromTime t)"
  using YearFromDay_lower[of "Day t"] YearFromDay_upper[of "Day t"]
    DayFromYear_Suc[of "YearFromDay (Day t)"]
  by (simp add: DayWithinYear_def YearFromTime_def)

lemma MonthFromTime_range: "0 \<le> MonthFromTime t \<and> MonthFromTime t \<le> 11"
  by (simp add: MonthFromTime_def Let_def)

lemma DateFromTime_monthStart:
  "DateFromTime t = DayWithinYear t - monthStart (InLeapYear t) (MonthFromTime t) + 1"
  using MonthFromTime_range[of t]
  by (simp add: DateFromTime_def monthStart_def Let_def)

lemma month_bracket:
  fixes l d :: int
  assumes "0 \<le> d" "d < 365 + l"
  defines "m \<equiv> (if d < 31 then 0
      else if d < 59 + l then 1
      else if d < 90 + l then 2
      else if d < 120 + l then 3
      else if d < 151 + l then 4
      else if d < 181 + l then 5
      else if d < 212 + l then 6
      else if d < 243 + l then 7
      else if d < 273 + l then 8
      else if d < 304 + l then 9
      else if d < 334 + l then 10
      else (11::int))"
  shows "monthStart l m \<le> d"
    and "d < monthStart l m +
      (if m = 1 then 28 + l else if m = 3 \<or> m = 5 \<or> m = 8 \<or> m = 10 then 30 else 31)"
  using assms(1,2) unfolding m_def monthStart_def by simp_all


lemma InLeapYear_DaysInYear: "DaysInYear (YearFromTime t) = 365 + InLeapYear t"
  using DaysInYear_cases[of "YearFromTime t"] by (auto simp: InLeapYear_def)

lemma DaysInMonth_leap:
  "DaysInMonth y m = (if m = 1 then 28 + (if DaysInYear y = 365 then 0 else 1)
     else if m = 3 \<or> m = 5 \<or> m = 8 \<or> m = 10 then 30 else 31)"
  by (simp add: DaysInMonth_def)

lemma DateFromTime_range:
  "1 \<le> DateFromTime t \<and> DateFromTime t \<le> DaysInMonth (YearFromTime t) (MonthFromTime t)"
proof -
  define d l where "d = DayWithinYear t" and "l = InLeapYear t"
  have r: "0 \<le> d" "d < 365 + l"
    using DayWithinYear_range[of t] InLeapYear_DaysInYear[of t] by (simp_all add: d_def l_def)
  have m: "MonthFromTime t = (if d < 31 then 0
      else if d < 59 + l then 1
      else if d < 90 + l then 2
      else if d < 120 + l then 3
      else if d < 151 + l then 4
      else if d < 181 + l then 5
      else if d < 212 + l then 6
      else if d < 243 + l then 7
      else if d < 273 + l then 8
      else if d < 304 + l then 9
      else if d < 334 + l then 10
      else 11)"
    by (simp add: MonthFromTime_def Let_def d_def l_def)
  have dim: "DaysInMonth (YearFromTime t) (MonthFromTime t) =
      (if MonthFromTime t = 1 then 28 + l
       else if MonthFromTime t = 3 \<or> MonthFromTime t = 5 \<or> MonthFromTime t = 8
            \<or> MonthFromTime t = 10 then 30 else 31)"
    by (simp add: DaysInMonth_leap l_def InLeapYear_def)
  show ?thesis
    using month_bracket[OF r] unfolding m[symmetric] dim DateFromTime_monthStart
    by (simp add: d_def l_def)
qed

subsection \<open>\<open>MakeDay\<close> and the fields of a time value are inverse to each other\<close>

lemma MakeDay_in_year:
  assumes "0 \<le> m" "m \<le> 11"
  shows "MakeDay y m dt =
     DayFromYear y + monthStart (if DaysInYear y = 365 then 0 else 1) m + dt - 1"
proof -
  have "m div 12 = 0" "m mod 12 = m" using assms by simp_all
  then show ?thesis by (simp add: MakeDay_def)
qed

lemma MakeDay_civil: "MakeDay (YearFromTime t) (MonthFromTime t) (DateFromTime t) = Day t"
  using MonthFromTime_range[of t]
  by (simp add: MakeDay_in_year DateFromTime_monthStart InLeapYear_def DayWithinYear_def)

lemma MakeDay_date: "MakeDay y m (dt + k) = MakeDay y m dt + k"
  by (simp add: MakeDay_def Let_def)

lemma MakeDay_date_1: "MakeDay y m dt = MakeDay y m 1 + (dt - 1)"
  by (simp add: MakeDay_def Let_def)

lemma month_set: "{0..11::int} = {0, 1, 2, 3, 4, 5, 6, 7, 8, 9, 10, 11}"
proof -
  have "[0..11::int] = [0, 1, 2, 3, 4, 5, 6, 7, 8, 9, 10, 11]" by code_simp
  then have "set [0..11::int] = set [0, 1, 2, 3, 4, 5, 6, 7, 8, 9, 10, 11]" by (rule arg_cong)
  then show ?thesis by (simp only: set_upto list.set)
qed

lemma month_cases:
  assumes "0 \<le> (m::int)" "m \<le> 11"
  shows "m = 0 \<or> m = 1 \<or> m = 2 \<or> m = 3 \<or> m = 4 \<or> m = 5 \<or> m = 6 \<or> m = 7 \<or> m = 8
     \<or> m = 9 \<or> m = 10 \<or> m = 11"
proof -
  from assms have "m \<in> {0..11}" by simp
  then show ?thesis unfolding month_set by simp
qed

lemma monthStart_Suc:
  assumes "0 \<le> m" "m \<le> 10"
  shows "monthStart l (m + 1) = monthStart l m +
     (if m = 1 then 28 + l else if m = 3 \<or> m = 5 \<or> m = 8 \<or> m = 10 then 30 else 31)"
proof -
  have "m = 0 \<or> m = 1 \<or> m = 2 \<or> m = 3 \<or> m = 4 \<or> m = 5 \<or> m = 6 \<or> m = 7 \<or> m = 8
     \<or> m = 9 \<or> m = 10 \<or> m = 11" using assms by (intro month_cases) simp_all
  then show ?thesis using assms(2) by (elim disjE) (simp_all add: monthStart_def)
qed

lemma monthStart_range:
  assumes "0 \<le> m" "m \<le> 11" "0 \<le> l"
  shows "monthStart l m +
     (if m = 1 then 28 + l else if m = 3 \<or> m = 5 \<or> m = 8 \<or> m = 10 then 30 else 31)
       \<le> 365 + l"
  using month_cases[OF assms(1,2)] by (elim disjE) (simp_all add: monthStart_def assms(3))

lemma monthStart_nonneg:
  assumes "0 \<le> m" "m \<le> 11" "0 \<le> l"
  shows "0 \<le> monthStart l m"
  using month_cases[OF assms(1,2)] by (elim disjE) (simp_all add: monthStart_def assms(3))


lemma leap_flag_DaysInYear: "DaysInYear y = 365 + (if DaysInYear y = 365 then 0 else 1)"
  using DaysInYear_cases[of y] by auto

lemma civil_of_MakeDay:
  assumes m: "0 \<le> m" "m \<le> 11" and dt: "1 \<le> dt" "dt \<le> DaysInMonth y m"
    and day: "Day t = MakeDay y m dt"
  shows "YearFromTime t = y" and "MonthFromTime t = m" and "DateFromTime t = dt"
proof -
  define l :: int where "l = (if DaysInYear y = 365 then 0 else 1)"
  have l0: "0 \<le> l" by (simp add: l_def)
  have diy: "DaysInYear y = 365 + l" using leap_flag_DaysInYear[of y] by (simp add: l_def)
  have dim: "DaysInMonth y m =
      (if m = 1 then 28 + l else if m = 3 \<or> m = 5 \<or> m = 8 \<or> m = 10 then 30 else 31)"
    by (simp add: DaysInMonth_leap l_def)
  have D: "Day t = DayFromYear y + monthStart l m + dt - 1"
    using day by (simp add: MakeDay_in_year[OF m] l_def)
  have lo: "0 \<le> monthStart l m + dt - 1"
    using monthStart_nonneg[OF m l0] dt(1) by simp
  have hi: "monthStart l m + dt - 1 < 365 + l"
    using monthStart_range[OF m l0] dt(2) unfolding dim by simp
  have "YearFromDay (Day t) = y"
    using lo hi by (intro YearFromDay_unique) (simp_all add: D DayFromYear_Suc diy)
  then show y: "YearFromTime t = y" by (simp add: YearFromTime_def)
  have il: "InLeapYear t = l" by (simp add: InLeapYear_def y l_def)
  have dwy: "DayWithinYear t = monthStart l m + dt - 1"
    by (simp add: DayWithinYear_def y D)
  show mo: "MonthFromTime t = m"
    using month_cases[OF m] dt l0 unfolding dim
    by (elim disjE) (simp_all add: MonthFromTime_def il dwy monthStart_def Let_def)
  show "DateFromTime t = dt"
    by (simp add: DateFromTime_monthStart mo il dwy)
qed

subsection \<open>Months carried into years\<close>

text \<open>
  \<open>MakeDay y m dt\<close> depends on \<open>12 * y + m\<close> only, and the first days of the months
  increase with this index by the lengths of the months.
\<close>

lemma MakeDay_month_index:
  assumes "12 * y + m = 12 * y' + m'"
  shows "MakeDay y m dt = MakeDay y' m' dt"
proof -
  have a: "(12 * y + m) div 12 = y + m div 12" "(12 * y + m) mod 12 = m mod 12" by simp_all
  have b: "(12 * y' + m') div 12 = y' + m' div 12" "(12 * y' + m') mod 12 = m' mod 12"
    by simp_all
  have "y + m div 12 = y' + m' div 12"
    using arg_cong[OF assms, of "\<lambda>k. k div 12"] unfolding a b .
  moreover have "m mod 12 = m' mod 12"
    using arg_cong[OF assms, of "\<lambda>k. k mod 12"] unfolding a b .
  ultimately show ?thesis by (simp only: MakeDay_def)
qed

lemma MakeDay_norm: "MakeDay y m dt = MakeDay (y + m div 12) (m mod 12) dt"
  by (simp add: MakeDay_def)

lemma MakeDay_next_month:
  "MakeDay y (m + 1) 1 = MakeDay y m 1 + DaysInMonth (y + m div 12) (m mod 12)"
proof -
  define Y M where "Y = y + m div 12" and "M = m mod 12"
  define l :: int where "l = (if DaysInYear Y = 365 then 0 else 1)"
  have M: "0 \<le> M" "M \<le> 11" by (simp_all add: M_def)
  have ym: "12 * y + m = 12 * Y + M" by (simp add: Y_def M_def algebra_simps)
  have dim: "DaysInMonth Y M =
      (if M = 1 then 28 + l else if M = 3 \<or> M = 5 \<or> M = 8 \<or> M = 10 then 30 else 31)"
    by (simp add: DaysInMonth_leap l_def)
  have cur: "MakeDay y m 1 = DayFromYear Y + monthStart l M"
    using MakeDay_month_index[OF ym, of 1] by (simp add: MakeDay_in_year[OF M] l_def)
  show ?thesis
  proof (cases "M = 11")
    case True
    have "12 * y + (m + 1) = 12 * (Y + 1) + 0" using ym True by simp
    then have "MakeDay y (m + 1) 1 = MakeDay (Y + 1) 0 1" by (rule MakeDay_month_index)
    also have "\<dots> = DayFromYear (Y + 1)" by (simp add: MakeDay_in_year monthStart_def)
    also have "\<dots> = DayFromYear Y + (365 + l)"
      using leap_flag_DaysInYear[of Y] by (simp add: DayFromYear_Suc l_def)
    finally have "MakeDay y (m + 1) 1 = DayFromYear Y + monthStart l M + 31"
      using True by (simp add: monthStart_def)
    moreover have "DaysInMonth Y M = 31" using True by (simp add: DaysInMonth_def)
    ultimately show ?thesis by (simp add: cur Y_def[symmetric] M_def[symmetric])
  next
    case False
    with M have M10: "M \<le> 10" by simp
    have "12 * y + (m + 1) = 12 * Y + (M + 1)" using ym by simp
    then have "MakeDay y (m + 1) 1 = MakeDay Y (M + 1) 1" by (rule MakeDay_month_index)
    also have "\<dots> = DayFromYear Y + monthStart l (M + 1)"
      using M M10 by (simp add: MakeDay_in_year l_def)
    finally show ?thesis
      using monthStart_Suc[OF M(1) M10, of l]
      by (simp add: cur dim Y_def[symmetric] M_def[symmetric])
  qed
qed

lemma DaysInMonth_range: "28 \<le> DaysInMonth y m \<and> DaysInMonth y m \<le> 31"
  by (simp add: DaysInMonth_def)

lemma int_strict_mono:
  fixes f :: "int \<Rightarrow> int"
  assumes step: "\<And>k. f k < f (k + 1)" and ab: "a < b"
  shows "f a < f b"
  using ab
proof (induction b rule: int_gr_induct)
  case base
  show ?case by (rule step)
next
  case (step i)
  from step.IH assms(1)[of i] show ?case by simp
qed

lemma firstDay_strict_mono: "a < b \<Longrightarrow> MakeDay 0 a 1 < MakeDay 0 b 1"
proof (rule int_strict_mono[where f = "\<lambda>k. MakeDay 0 k 1"])
  fix k :: int
  show "MakeDay 0 k 1 < MakeDay 0 (k + 1) 1"
    using DaysInMonth_range[of "0 + k div 12" "k mod 12"] by (simp add: MakeDay_next_month)
qed

lemma Day_month_bracket:
  "MakeDay 0 (monthIndex t) 1 \<le> Day t" "Day t < MakeDay 0 (monthIndex t + 1) 1"
proof -
  define y m where "y = YearFromTime t" and "m = MonthFromTime t"
  have m: "0 \<le> m" "m \<le> 11" using MonthFromTime_range[of t] by (simp_all add: m_def)
  have idx: "monthIndex t = 12 * y + m" by (simp add: monthIndex_def y_def m_def)
  have dm: "(12 * y + m) div 12 = y" "(12 * y + m) mod 12 = m" using m by simp_all
  have first: "MakeDay 0 (monthIndex t) 1 = MakeDay y m 1"
    unfolding idx by (rule MakeDay_month_index) simp
  have day: "Day t = MakeDay y m 1 + (DateFromTime t - 1)"
    using MakeDay_civil[of t] MakeDay_date_1[of y m "DateFromTime t"] by (simp add: y_def m_def)
  show "MakeDay 0 (monthIndex t) 1 \<le> Day t"
    using DateFromTime_range[of t] by (simp add: first day)
  show "Day t < MakeDay 0 (monthIndex t + 1) 1"
    using DateFromTime_range[of t] first dm
    by (simp add: MakeDay_next_month day idx y_def[symmetric] m_def[symmetric])
qed

lemma monthIndex_mono:
  assumes "t \<le> t'"
  shows "monthIndex t \<le> monthIndex t'"
proof (rule ccontr)
  assume "\<not> monthIndex t \<le> monthIndex t'"
  then have "monthIndex t' + 1 \<le> monthIndex t" by simp
  then have "MakeDay 0 (monthIndex t' + 1) 1 \<le> MakeDay 0 (monthIndex t) 1"
    using firstDay_strict_mono[of "monthIndex t' + 1" "monthIndex t"]
    by (cases "monthIndex t' + 1 = monthIndex t") simp_all
  with Day_month_bracket(1)[of t] Day_month_bracket(2)[of t'] have "Day t' < Day t" by simp
  moreover have "Day t \<le> Day t'"
    unfolding Day_def by (rule zdiv_mono1[OF assms]) (simp add: msPerDay_def)
  ultimately show False by simp
qed

subsection \<open>Setters in a zone of constant offset\<close>

lemma LocalTime_fixed: "LocalTime (fixedZone c) t = t + c"
  by (simp add: LocalTime_def LocalTZA_def fixedZone_def)

lemma UTC_fixed: "UTC (fixedZone c) t = t - c"
  by (simp add: UTC_def LocalTZA_def fixedZone_def)

lemma TimeWithinDay_range: "0 \<le> TimeWithinDay t" "TimeWithinDay t < msPerDay"
  by (simp_all add: TimeWithinDay_def msPerDay_def)

lemma MakeDate_Day: "MakeDate (Day t) (TimeWithinDay t) = t"
  by (simp add: MakeDate_def Day_def TimeWithinDay_def)

lemma Day_MakeDate:
  assumes "0 \<le> tod" "tod < msPerDay"
  shows "Day (MakeDate D tod) = D" and "TimeWithinDay (MakeDate D tod) = tod"
proof -
  have k: "0 < msPerDay" by (simp add: msPerDay_def)
  show d: "Day (MakeDate D tod) = D"
    unfolding Day_def MakeDate_def using assms
    by (intro div_eqI[OF k]) (simp_all add: mult.commute)
  have "MakeDate D tod = msPerDay * (MakeDate D tod div msPerDay) + MakeDate D tod mod msPerDay"
    by simp
  then show "TimeWithinDay (MakeDate D tod) = tod"
    using d by (simp add: TimeWithinDay_def Day_def MakeDate_def mult.commute)
qed

lemma MakeTime_parts:
  "MakeTime (HourFromTime t) (MinFromTime t) (SecFromTime t) (msFromTime t) = TimeWithinDay t"
proof -
  define h m s ms where "h = t div 3600000 mod 24" and "m = t div 60000 mod 60"
    and "s = t div 1000 mod 60" and "ms = t mod 1000"
  define r1 r2 r3 where "r1 = t mod 60000" and "r2 = t mod 3600000" and "r3 = t mod 86400000"
  have a: "r1 = 1000 * s + ms"
    using zmod_zmult2_eq[of 60 t 1000] by (simp add: r1_def s_def ms_def)
  have b: "r2 = 60000 * m + r1"
    using zmod_zmult2_eq[of 60 t 60000] by (simp add: r2_def m_def r1_def)
  have c: "r3 = 3600000 * h + r2"
    using zmod_zmult2_eq[of 24 t 3600000] by (simp add: r3_def h_def r2_def)
  have "MakeTime (HourFromTime t) (MinFromTime t) (SecFromTime t) (msFromTime t)
      = h * 3600000 + m * 60000 + s * 1000 + ms"
    by (simp only: MakeTime_def HourFromTime_def MinFromTime_def SecFromTime_def msFromTime_def
        msPerHour_def msPerMinute_def msPerSecond_def h_def m_def s_def ms_def)
  also have "\<dots> = r3" unfolding a b c by simp
  finally show ?thesis by (simp only: TimeWithinDay_def msPerDay_def r3_def)
qed

lemma MakeTime_hour: "MakeTime (h + k) m s ms = MakeTime h m s ms + k * msPerHour"
  by (simp add: MakeTime_def algebra_simps)

lemma MakeTime_minute: "MakeTime h (m + k) s ms = MakeTime h m s ms + k * msPerMinute"
  by (simp add: MakeTime_def algebra_simps)

lemma setDate_fixed:
  "setDate (fixedZone c) tv dt =
     MakeDate (MakeDay (YearFromTime (tv + c)) (MonthFromTime (tv + c)) dt)
       (TimeWithinDay (tv + c)) - c"
  by (simp add: setDate_def LocalTime_fixed UTC_fixed Let_def)

lemma setDate_advance:
  "setDate (fixedZone c) tv (getDate (fixedZone c) tv + k) = tv + k * msPerDay"
proof -
  have "MakeDay (YearFromTime (tv + c)) (MonthFromTime (tv + c)) (DateFromTime (tv + c) + k)
      = Day (tv + c) + k"
    by (simp add: MakeDay_date MakeDay_civil)
  then have "setDate (fixedZone c) tv (getDate (fixedZone c) tv + k)
      = MakeDate (Day (tv + c) + k) (TimeWithinDay (tv + c)) - c"
    by (simp add: setDate_fixed getDate_def LocalTime_fixed)
  also have "\<dots> = MakeDate (Day (tv + c)) (TimeWithinDay (tv + c)) + k * msPerDay - c"
    by (simp add: MakeDate_def algebra_simps)
  finally show ?thesis by (simp add: MakeDate_Day)
qed

lemma setHours_advance:
  "setHours (fixedZone c) tv (getHours (fixedZone c) tv + k) = tv + k * msPerHour"
proof -
  have "setHours (fixedZone c) tv (getHours (fixedZone c) tv + k)
      = MakeDate (Day (tv + c)) (TimeWithinDay (tv + c) + k * msPerHour) - c"
    by (simp add: setHours_def getHours_def LocalTime_fixed UTC_fixed MakeTime_hour Let_def
        MakeTime_parts)
  also have "\<dots> = MakeDate (Day (tv + c)) (TimeWithinDay (tv + c)) + k * msPerHour - c"
    by (simp add: MakeDate_def)
  finally show ?thesis by (simp add: MakeDate_Day)
qed

lemma setMinutes_advance:
  "setMinutes (fixedZone c) tv (getMinutes (fixedZone c) tv + k) = tv + k * msPerMinute"
proof -
  have "setMinutes (fixedZone c) tv (getMinutes (fixedZone c) tv + k)
      = MakeDate (Day (tv + c)) (TimeWithinDay (tv + c) + k * msPerMinute) - c"
    by (simp add: setMinutes_def getMinutes_def LocalTime_fixed UTC_fixed MakeTime_minute Let_def
        MakeTime_parts)
  also have "\<dots> = MakeDate (Day (tv + c)) (TimeWithinDay (tv + c)) + k * msPerMinute - c"
    by (simp add: MakeDate_def)
  finally show ?thesis by (simp add: MakeDate_Day)
qed

subsection \<open>\<open>addMonthsClamped\<close> in closed form\<close>

lemma civil_of_MakeDate:
  assumes "0 \<le> m" "m \<le> 11" "1 \<le> dt" "dt \<le> DaysInMonth y m"
    and "0 \<le> tod" "tod < msPerDay"
  shows "YearFromTime (MakeDate (MakeDay y m dt) tod) = y"
    and "MonthFromTime (MakeDate (MakeDay y m dt) tod) = m"
    and "DateFromTime (MakeDate (MakeDay y m dt) tod) = dt"
    and "TimeWithinDay (MakeDate (MakeDay y m dt) tod) = tod"
  using civil_of_MakeDay[OF assms(1-4), of "MakeDate (MakeDay y m dt) tod"]
    Day_MakeDate[OF assms(5,6), of "MakeDay y m dt"]
  by simp_all

lemma DaysInMonth_ge_1: "1 \<le> DaysInMonth y m"
  using DaysInMonth_range[of y m] by simp

text \<open>
  The day of the month that \<^verbatim>\<open>new Date(year, month + 1, 0).getDate()\<close> returns: the
  length of the month in the year that the constructor makes of \<open>year\<close>.
\<close>

lemma lastDay_fixed:
  assumes "0 \<le> m" "m \<le> 11"
  shows "getDate (fixedZone c) (newDateYMD (fixedZone c) y (m + 1) 0)
     = DaysInMonth (MakeFullYear y) m"
proof -
  define F where "F = MakeFullYear y"
  have dm: "m div 12 = 0" "m mod 12 = m" using assms by simp_all
  have "MakeDay F (m + 1) 0 = MakeDay F (m + 1) 1 - 1"
    using MakeDay_date[of F "m + 1" 1 "- 1"] by simp
  also have "\<dots> = MakeDay F m 1 + DaysInMonth F m - 1"
    by (simp add: MakeDay_next_month dm)
  also have "\<dots> = MakeDay F m (DaysInMonth F m)"
    using MakeDay_date[of F m 1 "DaysInMonth F m - 1"] by simp
  finally have day: "MakeDay F (m + 1) 0 = MakeDay F m (DaysInMonth F m)" .
  have "getDate (fixedZone c) (newDateYMD (fixedZone c) y (m + 1) 0)
      = DateFromTime (MakeDate (MakeDay F m (DaysInMonth F m)) 0)"
    by (simp add: getDate_def newDateYMD_def LocalTime_fixed UTC_fixed Let_def F_def[symmetric]
        day MakeTime_def)
  also have "\<dots> = DaysInMonth F m"
    using assms DaysInMonth_ge_1[of F m] by (intro civil_of_MakeDate) (simp_all add: msPerDay_def)
  finally show ?thesis by (simp add: F_def)
qed

lemma addMonthsClamped_fixed:
  fixes c tv N :: int
  defines "t \<equiv> tv + c"
  defines "k \<equiv> monthIndex (tv + c) + N"
  shows "addMonthsClamped (fixedZone c) tv N =
     MakeDate (MakeDay 0 k (min (DateFromTime t)
         (DaysInMonth (MakeFullYear (k div 12)) (k mod 12)))) (TimeWithinDay t) - c"
proof -
  define z where "z = fixedZone c"
  define y m d tod where "y = YearFromTime t" and "m = MonthFromTime t"
    and "d = DateFromTime t" and "tod = TimeWithinDay t"
  define Y M where "Y = k div 12" and "M = k mod 12"
  have m: "0 \<le> m" "m \<le> 11" using MonthFromTime_range[of t] by (simp_all add: m_def)
  have M: "0 \<le> M" "M \<le> 11" by (simp_all add: M_def)
  have tod: "0 \<le> tod" "tod < msPerDay" using TimeWithinDay_range[of t] by (simp_all add: tod_def)
  have k: "k = 12 * y + m + N" by (simp add: k_def monthIndex_def y_def m_def t_def)
  have kYM: "12 * Y + M = k" by (simp add: Y_def M_def)
  define n1 where "n1 = setDate z (getTime tv) 1"
  have n1: "n1 + c = MakeDate (MakeDay y m 1) tod"
    by (simp add: n1_def z_def setDate_fixed getTime_def y_def m_def tod_def t_def)
  have c1: "YearFromTime (n1 + c) = y" "MonthFromTime (n1 + c) = m"
    "DateFromTime (n1 + c) = 1" "TimeWithinDay (n1 + c) = tod"
    unfolding n1 using m tod DaysInMonth_ge_1[of y m] by (simp_all add: civil_of_MakeDate)
  define n2 where "n2 = setMonth z n1 (getMonth z n1 + N)"
  have "n2 + c = MakeDate (MakeDay y (m + N) 1) tod"
    by (simp add: n2_def z_def setMonth_def getMonth_def LocalTime_fixed UTC_fixed Let_def c1)
  also have "MakeDay y (m + N) 1 = MakeDay Y M 1"
    by (rule MakeDay_month_index) (simp add: kYM k)
  finally have n2: "n2 + c = MakeDate (MakeDay Y M 1) tod" .
  have c2: "YearFromTime (n2 + c) = Y" "MonthFromTime (n2 + c) = M"
    "TimeWithinDay (n2 + c) = tod"
    unfolding n2 using M tod DaysInMonth_ge_1[of Y M] by (simp_all add: civil_of_MakeDate)
  define last where "last = getDate z (newDateYMD z (getFullYear z n2) (getMonth z n2 + 1) 0)"
  have last: "last = DaysInMonth (MakeFullYear Y) M"
    using lastDay_fixed[OF M, of c Y]
    by (simp add: last_def z_def getFullYear_def getMonth_def LocalTime_fixed c2)
  have "addMonthsClamped z tv N = setDate z n2 (min (getDate z (getTime tv)) last)"
    by (simp add: addMonthsClamped_def Let_def n1_def n2_def last_def)
  also have "\<dots> = MakeDate (MakeDay Y M (min d last)) tod - c"
    by (simp add: z_def setDate_fixed c2 getDate_def getTime_def LocalTime_fixed d_def t_def)
  also have "MakeDay Y M (min d last) = MakeDay 0 k (min d last)"
    by (rule MakeDay_month_index) (simp add: kYM)
  finally show ?thesis
    by (simp add: z_def last d_def tod_def Y_def M_def)
qed

section \<open>The program in a zone of constant offset\<close>

subsection \<open>The stages\<close>

lemma calculateBreakdown_stages:
  "calculateBreakdown z startDate now =
     (if now \<le> startDate then
        \<lparr>years = 0, months = 0, days = 0, hours = 0, minutes = 0, seconds = 0\<rparr>
      else
        let adj = adjustedTotalMonths z startDate now;
            u = peelUnits z (monthAnchor z startDate now) now
        in \<lparr>years = adj div 12, months = adj smod 12, days = fst u, hours = fst (snd u),
            minutes = fst (snd (snd u)), seconds = snd (snd (snd u))\<rparr>)"
proof (cases "now \<le> startDate")
  case True
  then show ?thesis by (simp add: calculateBreakdown_def)
next
  case False
  define total where "total = totalMonths z startDate now"
  define a0 where "a0 = addMonthsClamped z startDate total"
  show ?thesis
  proof (cases "a0 > now")
    case True
    then show ?thesis
      using False
      unfolding calculateBreakdown_def adjustedTotalMonths_def monthAnchor_def peelUnits_def
        getTime_def totalMonths_def[symmetric] total_def[symmetric] Let_def a0_def[symmetric]
      by (simp only: if_True if_False fst_conv snd_conv)
  next
    case F2: False
    then show ?thesis
      using False
      unfolding calculateBreakdown_def adjustedTotalMonths_def monthAnchor_def peelUnits_def
        getTime_def totalMonths_def[symmetric] total_def[symmetric] Let_def a0_def[symmetric]
      by (simp only: if_True if_False fst_conv snd_conv)
  qed
qed

lemma totalMonths_fixed:
  "totalMonths (fixedZone c) start now = monthIndex (now + c) - monthIndex (start + c)"
  by (simp add: totalMonths_def monthIndex_def getFullYear_def getMonth_def LocalTime_fixed)

lemma peelUnits_fixed: "peelUnits (fixedZone c) anchor now = independentUnits (now - anchor)"
proof -
  define g where "g = now - anchor"
  define d where "d = g div 86400000"
  define h where "h = (g - d * 86400000) div 3600000"
  define m where "m = (g - d * 86400000 - h * 3600000) div 60000"
  have r1: "g - d * 86400000 = g mod 86400000"
    unfolding d_def by (simp add: minus_div_mult_eq_mod)
  have r2a: "g mod 86400000 - h * 3600000 = (g mod 86400000) mod 3600000"
    unfolding h_def r1 by (simp add: minus_div_mult_eq_mod)
  have "(g mod 86400000) mod 3600000 = g mod 3600000"
    by (rule mod_mod_cancel) simp
  with r2a have r2: "g - d * 86400000 - h * 3600000 = g mod 3600000" using r1 by simp
  have r3a: "g mod 3600000 - m * 60000 = (g mod 3600000) mod 60000"
    unfolding m_def r2 by (simp add: minus_div_mult_eq_mod)
  have "(g mod 3600000) mod 60000 = g mod 60000"
    by (rule mod_mod_cancel) simp
  with r3a have r3: "g - d * 86400000 - h * 3600000 - m * 60000 = g mod 60000" using r2 by simp
  have "peelUnits (fixedZone c) anchor now =
      (d, h, m, (g - d * 86400000 - h * 3600000 - m * 60000) div 1000)"
    by (simp add: peelUnits_def Let_def getTime_def setDate_advance setHours_advance
        setMinutes_advance msPerDay_def msPerHour_def msPerMinute_def g_def d_def h_def m_def
        algebra_simps)
  also have "\<dots> = (d, g mod 86400000 div 3600000, g mod 3600000 div 60000,
      g mod 60000 div 1000)"
    unfolding r3 unfolding h_def[unfolded r1] m_def[unfolded r2] ..
  also have "\<dots> = independentUnits g"
    by (simp add: independentUnits_def d_def msPerDay_def msPerHour_def msPerMinute_def
        msPerSecond_def)
  finally show ?thesis by (simp add: g_def)
qed

subsection \<open>The anchor\<close>

lemma local_decomp:
  "t = MakeDate (MakeDay 0 (monthIndex t) 1 + (DateFromTime t - 1)) (TimeWithinDay t)"
proof -
  have "MakeDay 0 (monthIndex t) (DateFromTime t) = Day t"
    using MakeDay_month_index[of 0 "monthIndex t" "YearFromTime t" "MonthFromTime t"
        "DateFromTime t"]
    by (simp add: monthIndex_def MakeDay_civil)
  then have "MakeDay 0 (monthIndex t) 1 + (DateFromTime t - 1) = Day t"
    using MakeDay_date_1[of 0 "monthIndex t" "DateFromTime t"] by simp
  then show ?thesis by (simp add: MakeDate_Day)
qed



lemma DaysInYear_1900:
  assumes "1 \<le> Y" "Y \<le> 99"
  shows "DaysInYear (1900 + Y) = DaysInYear Y"
proof -
  have a: "(1900 + Y) mod 4 = Y mod 4" using mod_mult_self2[of Y 4 475] by (simp add: add.commute)
  have b: "(1900 + Y) mod 100 = Y mod 100"
    using mod_mult_self2[of Y 100 19] by (simp add: add.commute)
  have c: "Y mod 100 = Y" using assms by simp
  have d: "(1900 + Y) mod 400 \<noteq> 0" using mod_100_400[of "1900 + Y"] b c assms by auto
  have e: "Y mod 400 \<noteq> 0" using mod_100_400[of Y] c assms by auto
  show ?thesis using assms by (simp add: DaysInYear_def a b c d e)
qed

lemma clampedLastDay_bounds:
  "28 \<le> clampedLastDay k"
  "clampedLastDay k \<le> DaysInMonth (k div 12) (k mod 12)"
  "DaysInMonth (k div 12) (k mod 12) \<le> clampedLastDay k + 1"
proof -
  show "28 \<le> clampedLastDay k" by (simp add: clampedLastDay_def DaysInMonth_def)
  have "DaysInYear (MakeFullYear (k div 12)) = DaysInYear (k div 12) \<or> k div 12 = 0"
    using DaysInYear_1900[of "k div 12"] by (auto simp: MakeFullYear_def)
  moreover have "DaysInYear 1900 = 365" "DaysInYear 0 = 366" by (simp_all add: DaysInYear_def)
  ultimately show "clampedLastDay k \<le> DaysInMonth (k div 12) (k mod 12)"
    and "DaysInMonth (k div 12) (k mod 12) \<le> clampedLastDay k + 1"
    by (auto simp: clampedLastDay_def DaysInMonth_def MakeFullYear_def)
qed

lemma clampedLastDay_exact:
  assumes "k div 12 \<noteq> 0"
  shows "clampedLastDay k = DaysInMonth (k div 12) (k mod 12)"
proof -
  have "DaysInYear (MakeFullYear (k div 12)) = DaysInYear (k div 12)"
    using DaysInYear_1900[of "k div 12"] assms by (auto simp: MakeFullYear_def)
  then show ?thesis by (simp add: clampedLastDay_def DaysInMonth_def)
qed

lemma MakeDate_less:
  assumes "D1 < D2" "0 \<le> t1" "t1 < msPerDay" "0 \<le> t2"
  shows "MakeDate D1 t1 < MakeDate D2 t2"
proof -
  have "D1 + 1 \<le> D2" using assms(1) by simp
  then have "(D1 + 1) * msPerDay \<le> D2 * msPerDay"
    by (intro mult_right_mono) (simp_all add: msPerDay_def)
  then show ?thesis using assms(2-4) by (simp add: MakeDate_def algebra_simps)
qed

lemma MakeDate_mono:
  assumes "D1 \<le> D2"
  shows "MakeDate D1 t \<le> MakeDate D2 t"
proof -
  have "D1 * msPerDay \<le> D2 * msPerDay"
    using assms by (intro mult_right_mono) (simp_all add: msPerDay_def)
  then show ?thesis by (simp add: MakeDate_def)
qed

lemma firstDay_next: "MakeDay 0 (k + 1) 1 = MakeDay 0 k 1 + DaysInMonth (k div 12) (k mod 12)"
  using MakeDay_next_month[of 0 k] by simp

lemma firstDay_prev: "MakeDay 0 k 1 = MakeDay 0 (k - 1) 1 + DaysInMonth ((k - 1) div 12) ((k - 1) mod 12)"
  using firstDay_next[of "k - 1"] by simp

text \<open>
  The local time of the anchor after \<open>N\<close> months: the first day of the target month, the
  clamped day of the start and the time of day of the start.
\<close>

lemma anchor_local:
  fixes c s N :: int
  defines "k \<equiv> monthIndex (s + c) + N"
  shows "addMonthsClamped (fixedZone c) s N + c =
     MakeDate (MakeDay 0 k 1 + (min (DateFromTime (s + c)) (clampedLastDay k) - 1))
       (TimeWithinDay (s + c))"
  using addMonthsClamped_fixed[of c s N]
    MakeDay_date_1[of 0 k "min (DateFromTime (s + c)) (clampedLastDay k)"]
  by (simp add: k_def clampedLastDay_def)

lemma anchor_civil:
  fixes c s N :: int
  defines "k \<equiv> monthIndex (s + c) + N"
  defines "a \<equiv> addMonthsClamped (fixedZone c) s N + c"
  shows "YearFromTime a = k div 12" and "MonthFromTime a = k mod 12"
    and "DateFromTime a = min (DateFromTime (s + c)) (clampedLastDay k)"
    and "TimeWithinDay a = TimeWithinDay (s + c)"
    and "monthIndex a = k"
proof -
  define dt where "dt = min (DateFromTime (s + c)) (clampedLastDay k)"
  have dt: "1 \<le> dt" "dt \<le> DaysInMonth (k div 12) (k mod 12)"
    using DateFromTime_range[of "s + c"] clampedLastDay_bounds[of k] by (simp_all add: dt_def)
  have "MakeDay 0 k dt = MakeDay (k div 12) (k mod 12) dt"
    by (rule MakeDay_month_index) simp
  then have a: "a = MakeDate (MakeDay (k div 12) (k mod 12) dt) (TimeWithinDay (s + c))"
    using addMonthsClamped_fixed[of c s N]
    by (simp add: a_def k_def dt_def clampedLastDay_def)
  have M: "0 \<le> k mod 12" "k mod 12 \<le> 11" by simp_all
  show y: "YearFromTime a = k div 12" and m: "MonthFromTime a = k mod 12"
    and "DateFromTime a = min (DateFromTime (s + c)) (clampedLastDay k)"
    and "TimeWithinDay a = TimeWithinDay (s + c)"
    unfolding a using civil_of_MakeDate[OF M dt TimeWithinDay_range[of "s + c"]]
    by (simp_all add: dt_def)
  show "monthIndex a = k" by (simp add: monthIndex_def y m)
qed

subsection \<open>The anchor is not after \<open>now\<close>\<close>

lemma firstDay_mono: "a \<le> b \<Longrightarrow> MakeDay 0 a 1 \<le> MakeDay 0 b 1"
  using firstDay_strict_mono[of a b] by (cases "a = b") simp_all

lemma totalMonths_fixed_nonneg:
  assumes "s \<le> n"
  shows "0 \<le> totalMonths (fixedZone c) s n"
  using monthIndex_mono[of "s + c" "n + c"] assms by (simp add: totalMonths_fixed)

lemma anchor_zero_le: "addMonthsClamped (fixedZone c) s 0 \<le> s"
proof -
  define k where "k = monthIndex (s + c)"
  have "addMonthsClamped (fixedZone c) s 0 + c =
      MakeDate (MakeDay 0 k 1 + (min (DateFromTime (s + c)) (clampedLastDay k) - 1))
        (TimeWithinDay (s + c))"
    using anchor_local[of c s 0] by (simp add: k_def)
  also have "\<dots> \<le> MakeDate (MakeDay 0 k 1 + (DateFromTime (s + c) - 1)) (TimeWithinDay (s + c))"
    by (rule MakeDate_mono) simp
  also have "\<dots> = s + c" unfolding k_def by (rule local_decomp[symmetric])
  finally show ?thesis by simp
qed

lemma anchor_earlier_month:
  assumes "N < totalMonths (fixedZone c) s n"
  shows "addMonthsClamped (fixedZone c) s N < n"
proof -
  define k kn where "k = monthIndex (s + c) + N" and "kn = monthIndex (n + c)"
  define dt where "dt = min (DateFromTime (s + c)) (clampedLastDay k)"
  have k: "k + 1 \<le> kn" using assms by (simp add: totalMonths_fixed k_def kn_def)
  have "dt \<le> DaysInMonth (k div 12) (k mod 12)"
    using clampedLastDay_bounds(2)[of k] by (simp add: dt_def)
  then have "MakeDay 0 k 1 + (dt - 1) < MakeDay 0 (k + 1) 1" by (simp add: firstDay_next)
  also have "\<dots> \<le> MakeDay 0 kn 1" using k by (rule firstDay_mono)
  also have "\<dots> \<le> MakeDay 0 kn 1 + (DateFromTime (n + c) - 1)"
    using DateFromTime_range[of "n + c"] by simp
  finally have "MakeDate (MakeDay 0 k 1 + (dt - 1)) (TimeWithinDay (s + c))
      < MakeDate (MakeDay 0 kn 1 + (DateFromTime (n + c) - 1)) (TimeWithinDay (n + c))"
    using TimeWithinDay_range by (intro MakeDate_less) simp_all
  then have "addMonthsClamped (fixedZone c) s N + c < n + c"
    using anchor_local[of c s N] local_decomp[of "n + c"] by (simp add: k_def kn_def dt_def)
  then show ?thesis by simp
qed

lemma adjustedTotalMonths_cases:
  "adjustedTotalMonths z s n =
     (if addMonthsClamped z s (totalMonths z s n) > n then totalMonths z s n - 1
      else totalMonths z s n)"
  by (simp add: adjustedTotalMonths_def Let_def)

lemma monthAnchor_adjusted:
  "monthAnchor z s n = addMonthsClamped z s (adjustedTotalMonths z s n)"
  by (simp add: monthAnchor_def adjustedTotalMonths_def Let_def)

lemma monthAnchor_fixed_le:
  assumes "s < n"
  shows "monthAnchor (fixedZone c) s n \<le> n"
proof (cases "addMonthsClamped (fixedZone c) s (totalMonths (fixedZone c) s n) > n")
  case True
  then show ?thesis
    using anchor_earlier_month[of "totalMonths (fixedZone c) s n - 1" c s n]
    by (simp add: monthAnchor_def Let_def)
next
  case False
  then show ?thesis by (simp add: monthAnchor_def Let_def)
qed

lemma adjustedTotalMonths_fixed_nonneg:
  assumes "s < n"
  shows "0 \<le> adjustedTotalMonths (fixedZone c) s n"
proof (cases "addMonthsClamped (fixedZone c) s (totalMonths (fixedZone c) s n) > n")
  case True
  have "totalMonths (fixedZone c) s n \<noteq> 0"
  proof
    assume "totalMonths (fixedZone c) s n = 0"
    with True anchor_zero_le[of c s] assms show False by simp
  qed
  with totalMonths_fixed_nonneg[of s n c] assms True show ?thesis
    by (simp add: adjustedTotalMonths_cases)
next
  case False
  with totalMonths_fixed_nonneg[of s n c] assms show ?thesis
    by (simp add: adjustedTotalMonths_cases)
qed


subsection \<open>The gap between the anchor and \<open>now\<close>\<close>

lemma DateFromTime_le_31: "DateFromTime t \<le> 31"
  using DateFromTime_range[of t] DaysInMonth_range[of "YearFromTime t" "MonthFromTime t"]
  by simp

lemma clampedLastDay_le_31: "clampedLastDay k \<le> 31"
  using clampedLastDay_bounds(2)[of k] DaysInMonth_range[of "k div 12" "k mod 12"] by simp

lemma getFullYear_anchor:
  "getFullYear (fixedZone c) (addMonthsClamped (fixedZone c) s N) = (monthIndex (s + c) + N) div 12"
  using anchor_civil(1)[of c s N] by (simp add: getFullYear_def LocalTime_fixed)


subsection \<open>The breakdown in closed form\<close>


lemma smod_nonneg: "0 \<le> a \<Longrightarrow> (a::int) smod 12 = a mod 12"
  by (simp add: signed_modulo_int_def sgn_if)

lemma addMonthsClamped_shift:
  "addMonthsClamped (fixedZone c) s N = addMonthsClamped (fixedZone 0) (s + c) N - c"
  using addMonthsClamped_fixed[of c s N] addMonthsClamped_fixed[of 0 "s + c" N] by simp

lemma calculateBreakdown_shift:
  "calculateBreakdown (fixedZone c) s n = calculateBreakdown (fixedZone 0) (s + c) (n + c)"
proof -
  have t: "totalMonths (fixedZone c) s n = totalMonths (fixedZone 0) (s + c) (n + c)"
    by (simp add: totalMonths_fixed)
  have gt: "addMonthsClamped (fixedZone c) s N > n
      \<longleftrightarrow> addMonthsClamped (fixedZone 0) (s + c) N > n + c" for N
    by (simp add: addMonthsClamped_shift[of c s N] less_diff_eq)
  have adj: "adjustedTotalMonths (fixedZone c) s n =
      adjustedTotalMonths (fixedZone 0) (s + c) (n + c)"
    by (simp add: adjustedTotalMonths_cases t gt)
  have anc: "monthAnchor (fixedZone c) s n = monthAnchor (fixedZone 0) (s + c) (n + c) - c"
    unfolding monthAnchor_adjusted adj by (rule addMonthsClamped_shift)
  have "peelUnits (fixedZone c) (monthAnchor (fixedZone c) s n) n =
      peelUnits (fixedZone 0) (monthAnchor (fixedZone 0) (s + c) (n + c)) (n + c)"
    by (simp add: peelUnits_fixed anc algebra_simps)
  then show ?thesis by (simp add: calculateBreakdown_stages adj)
qed

lemma breakdown_fixed:
  fixes c s n :: int
  assumes "s < n"
  defines "g \<equiv> n - monthAnchor (fixedZone c) s n"
  defines "adj \<equiv> adjustedTotalMonths (fixedZone c) s n"
  shows "calculateBreakdown (fixedZone c) s n =
     \<lparr>years = adj div 12, months = adj mod 12, days = g div msPerDay,
      hours = (g mod msPerDay) div msPerHour, minutes = (g mod msPerHour) div msPerMinute,
      seconds = (g mod msPerMinute) div msPerSecond\<rparr>"
  using assms(1) adjustedTotalMonths_fixed_nonneg[OF assms(1), of c]
  by (simp add: calculateBreakdown_stages peelUnits_fixed independentUnits_def Let_def
      smod_nonneg g_def adj_def)


lemma mixed_radix:
  fixes g :: int
  shows "g div msPerDay * msPerDay + (g mod msPerDay) div msPerHour * msPerHour
     + (g mod msPerHour) div msPerMinute * msPerMinute
     + (g mod msPerMinute) div msPerSecond * msPerSecond = g - g mod msPerSecond"
proof -
  define r1 r2 r3 r4 where "r1 = g mod 86400000" and "r2 = g mod 3600000"
    and "r3 = g mod 60000" and "r4 = g mod 1000"
  have m2: "r1 mod 3600000 = r2" unfolding r1_def r2_def by (rule mod_mod_cancel) simp
  have m3: "r2 mod 60000 = r3" unfolding r2_def r3_def by (rule mod_mod_cancel) simp
  have m4: "r3 mod 1000 = r4" unfolding r3_def r4_def by (rule mod_mod_cancel) simp
  have a: "g div 86400000 * 86400000 = g - r1"
    unfolding r1_def by (simp add: minus_mod_eq_div_mult)
  have b: "r1 div 3600000 * 3600000 = r1 - r2"
    using minus_mod_eq_div_mult[of r1 3600000] by (simp add: m2)
  have c: "r2 div 60000 * 60000 = r2 - r3"
    using minus_mod_eq_div_mult[of r2 60000] by (simp add: m3)
  have d: "r3 div 1000 * 1000 = r3 - r4"
    using minus_mod_eq_div_mult[of r3 1000] by (simp add: m4)
  have "g div 86400000 * 86400000 + r1 div 3600000 * 3600000 + r2 div 60000 * 60000
      + r3 div 1000 * 1000 = g - r4"
    unfolding a b c d by simp
  then show ?thesis
    by (simp only: msPerDay_def msPerHour_def msPerMinute_def msPerSecond_def
        r1_def r2_def r3_def r4_def)
qed


subsection \<open>The constants, and the target of \<open>addMonthsClamped\<close>\<close>


lemma BREAK_GROUND_DATE_value: "BREAK_GROUND_DATE = 1320814800000"
  by code_simp


text \<open>
  What \<open>addMonthsClamped\<close> does in a zone of constant offset: the result lies \<open>N\<close> months
  after the month of the argument, has the time of day of the argument, and its day
  of the month is the day of the argument clamped to the length of the target month,
  unless the target month lies in the year 0.
\<close>

lemma addMonthsClamped_target:
  fixes c d N :: int
  defines "r \<equiv> addMonthsClamped (fixedZone c) d N"
  shows "monthIndex (LocalTime (fixedZone c) r) = monthIndex (LocalTime (fixedZone c) d) + N"
    and "TimeWithinDay (LocalTime (fixedZone c) r) = TimeWithinDay (LocalTime (fixedZone c) d)"
    and "getFullYear (fixedZone c) r \<noteq> 0 \<Longrightarrow>
         getDate (fixedZone c) r =
           min (getDate (fixedZone c) d)
               (DaysInMonth (getFullYear (fixedZone c) r) (getMonth (fixedZone c) r))"
proof -
  define k where "k = monthIndex (d + c) + N"
  show "monthIndex (LocalTime (fixedZone c) r) = monthIndex (LocalTime (fixedZone c) d) + N"
    and "TimeWithinDay (LocalTime (fixedZone c) r) = TimeWithinDay (LocalTime (fixedZone c) d)"
    using anchor_civil(4,5)[of c d N] by (simp_all add: LocalTime_fixed r_def)
  assume "getFullYear (fixedZone c) r \<noteq> 0"
  then have "k div 12 \<noteq> 0"
    using anchor_civil(1)[of c d N] by (simp add: getFullYear_def LocalTime_fixed r_def k_def)
  then have "clampedLastDay k = DaysInMonth (k div 12) (k mod 12)" by (rule clampedLastDay_exact)
  then show "getDate (fixedZone c) r =
      min (getDate (fixedZone c) d)
          (DaysInMonth (getFullYear (fixedZone c) r) (getMonth (fixedZone c) r))"
    using anchor_civil(1-3)[of c d N]
    by (simp add: getDate_def getFullYear_def getMonth_def LocalTime_fixed r_def k_def)
qed

section \<open>Across a transition of the host zone\<close>

text \<open>
  The loop of \<open>calculateBreakdown\<close> divides the gap by the 24 hours of a day of constant
  length and then advances the anchor by calendar days. When the offset of the zone
  changes between the anchor and \<open>now\<close> the two differ by the change, and the hours or
  the minutes leave their ranges. In America/Toronto, for the start constant of the
  module: on 2 November 2025 at 23:30 EST, after the end of daylight saving time, the
  hours are -1; on 20 March 2025 at 00:30 EDT, after its start, the hours are 24; on
  9 March 2025 at 23:30 EDT, the day of the start, the minutes are 90.
\<close>

lemma breakdown_after_dst_end:
  "calculateBreakdown America_Toronto BREAK_GROUND_DATE 1762144200000
     = \<lparr>years = 13, months = 11, days = 25, hours = - 1, minutes = 30, seconds = 0\<rparr>"
  by code_simp

lemma breakdown_after_dst_start:
  "calculateBreakdown America_Toronto BREAK_GROUND_DATE 1742445000000
     = \<lparr>years = 13, months = 4, days = 10, hours = 24, minutes = 30, seconds = 0\<rparr>"
  by code_simp

lemma breakdown_on_dst_start_day:
  "calculateBreakdown America_Toronto BREAK_GROUND_DATE 1741577400000
     = \<lparr>years = 13, months = 4, days = 0, hours = 22, minutes = 90, seconds = 0\<rparr>"
  by code_simp

text \<open>
  In every zone the loop can be retraced: the units of the breakdown, applied with the
  setters to the anchor of the months, lead to an instant that is not after \<open>now\<close> and
  less than a second before it. Applied as durations they are off by the change of the
  offset.
\<close>

lemma floor_second:
  fixes x n :: int
  shows "x + (n - x) div 1000 * 1000 \<le> n" and "n - (x + (n - x) div 1000 * 1000) < 1000"
proof -
  have "(n - x) div 1000 * 1000 = (n - x) - (n - x) mod 1000"
    by (simp add: minus_mod_eq_div_mult)
  moreover have "0 \<le> (n - x) mod 1000" "(n - x) mod 1000 < 1000" by simp_all
  ultimately show "x + (n - x) div 1000 * 1000 \<le> n"
    and "n - (x + (n - x) div 1000 * 1000) < 1000" by linarith+
qed

lemma advanceUnits_retraces:
  assumes "start < now"
  shows "advanceUnits z (monthAnchor z start now) (calculateBreakdown z start now) \<le> now"
    and "now - advanceUnits z (monthAnchor z start now) (calculateBreakdown z start now) < 1000"
proof -
  define adj where "adj = adjustedTotalMonths z start now"
  define a where "a = monthAnchor z start now"
  define d where "d = (now - a) div 86400000"
  define a1 where "a1 = setDate z a (getDate z a + d)"
  define h where "h = (now - a1) div 3600000"
  define a2 where "a2 = setHours z a1 (getHours z a1 + h)"
  define m where "m = (now - a2) div 60000"
  define a3 where "a3 = setMinutes z a2 (getMinutes z a2 + m)"
  have p: "peelUnits z a now = (d, h, m, (now - a3) div 1000)"
    by (simp add: peelUnits_def Let_def getTime_def d_def a1_def h_def a2_def m_def a3_def)
  have b: "calculateBreakdown z start now =
      \<lparr>years = adj div 12, months = adj smod 12, days = d, hours = h, minutes = m,
       seconds = (now - a3) div 1000\<rparr>"
    using assms(1) by (simp add: calculateBreakdown_stages Let_def adj_def[symmetric]
        a_def[symmetric] p)
  have "advanceUnits z a (calculateBreakdown z start now) = a3 + (now - a3) div 1000 * 1000"
    unfolding b
    by (simp add: advanceUnits_def Let_def a3_def a2_def a1_def msPerSecond_def)
  then show "advanceUnits z (monthAnchor z start now) (calculateBreakdown z start now) \<le> now"
    and "now - advanceUnits z (monthAnchor z start now) (calculateBreakdown z start now) < 1000"
    using floor_second[of a3 now] by (simp_all add: a_def)
qed

lemma reconstruct_after_dst_end:
  "reconstructCalendar America_Toronto BREAK_GROUND_DATE
     (calculateBreakdown America_Toronto BREAK_GROUND_DATE 1762144200000) = 1762144200000"
  "reconstruct America_Toronto BREAK_GROUND_DATE
     (calculateBreakdown America_Toronto BREAK_GROUND_DATE 1762144200000)
     = 1762144200000 - msPerHour"
  by code_simp+

text \<open>
  \<open>addMonthsClamped\<close> cannot keep a time of day that the target day does not have: one
  month after 9 February 2025 02:30 EST is 9 March 2025 03:30 EDT, the local times from
  02:00 to 03:00 of that day being skipped.
\<close>

lemma addMonthsClamped_skipped_hour:
  "getHours America_Toronto 1739086200000 = 2"
  "getMinutes America_Toronto 1739086200000 = 30"
  "addMonthsClamped America_Toronto 1739086200000 1 = 1741505400000"
  "getDate America_Toronto 1741505400000 = 9"
  "getHours America_Toronto 1741505400000 = 3"
  "getMinutes America_Toronto 1741505400000 = 30"
  by code_simp+

section \<open>The anchor against the calendar\<close>

text \<open>
  In a zone of constant offset \<open>addMonthsClamped\<close> is the clamped month addition of the
  specification, unless the target month lies in the year 0: the \<^verbatim>\<open>Date\<close> constructor
  reads the year 0 as 1900, which is not a leap year, while the year 0 is one.
\<close>

lemma addMonthsClamped_is_clampedMonthAdvance:
  assumes "(monthIndex (d + c) + N) div 12 \<noteq> 0"
  shows "addMonthsClamped (fixedZone c) d N = clampedMonthAdvance (fixedZone c) d N"
proof -
  define k where "k = monthIndex (d + c) + N"
  have n: "MakeDay 0 k dt = MakeDay (k div 12) (k mod 12) dt" for dt
    by (rule MakeDay_month_index) simp
  have l: "DaysInMonth (MakeFullYear (k div 12)) (k mod 12) = DaysInMonth (k div 12) (k mod 12)"
    using clampedLastDay_exact[of k] assms by (simp add: clampedLastDay_def k_def)
  show ?thesis
    unfolding addMonthsClamped_fixed
    by (simp add: clampedMonthAdvance_def Let_def LocalTime_fixed UTC_fixed k_def[symmetric] n l)
qed

text \<open>
  The hour, the minute, the second and the millisecond of a time value are functions of its
  time within the day.
\<close>

lemma div_mod_swap:
  fixes t k c :: int
  assumes "0 < k" "0 \<le> c"
  shows "(t div k) mod c = (t mod (k * c)) div k"
proof -
  have e: "t mod (k * c) = k * (t div k mod c) + t mod k"
    using assms(2) by (rule zmod_zmult2_eq)
  have "0 \<le> t mod k" "t mod k < k" using assms(1) by simp_all
  then have "(k * (t div k mod c) + t mod k) div k = t div k mod c"
    using assms(1) by simp
  then show ?thesis by (simp only: e)
qed

lemma time_components:
  "HourFromTime t = TimeWithinDay t div msPerHour"
  "MinFromTime t = (TimeWithinDay t mod msPerHour) div msPerMinute"
  "SecFromTime t = (TimeWithinDay t mod msPerMinute) div msPerSecond"
  "msFromTime t = TimeWithinDay t mod msPerSecond"
proof -
  show "HourFromTime t = TimeWithinDay t div msPerHour"
    using div_mod_swap[of 3600000 24 t]
    by (simp add: HourFromTime_def TimeWithinDay_def msPerHour_def msPerDay_def)
  have "(t div 60000) mod 60 = (t mod 3600000) div 60000"
    using div_mod_swap[of 60000 60 t] by simp
  moreover have "t mod 3600000 = (t mod 86400000) mod 3600000"
    by (simp add: mod_mod_cancel)
  ultimately show "MinFromTime t = (TimeWithinDay t mod msPerHour) div msPerMinute"
    by (simp add: MinFromTime_def TimeWithinDay_def msPerHour_def msPerDay_def msPerMinute_def)
  have "(t div 1000) mod 60 = (t mod 60000) div 1000"
    using div_mod_swap[of 1000 60 t] by simp
  moreover have "t mod 60000 = (t mod 86400000) mod 60000"
    by (simp add: mod_mod_cancel)
  ultimately show "SecFromTime t = (TimeWithinDay t mod msPerMinute) div msPerSecond"
    by (simp add: SecFromTime_def TimeWithinDay_def msPerSecond_def msPerDay_def msPerMinute_def)
  show "msFromTime t = TimeWithinDay t mod msPerSecond"
    by (simp add: msFromTime_def TimeWithinDay_def msPerSecond_def msPerDay_def mod_mod_cancel)
qed

text \<open>
  At the end of the range of time values the dates of a call are not all valid: for the
  second constant of the module and the last valid instant, in the zone UTC-5, the anchor
  of the raw month count lies after the range, and the program goes on with an invalid
  date.
\<close>

lemma dates_invalid_at_range_end:
  "validTime 8640000000000000"
  "addMonthsClamped (fixedZone (- 18000000)) PROJECTED_OPEN_DATE
     (totalMonths (fixedZone (- 18000000)) PROJECTED_OPEN_DATE 8640000000000000)
     = 8640001486800000"
  "\<not> validTime 8640001486800000"
  "\<not> calculateBreakdown_valid (fixedZone (- 18000000)) PROJECTED_OPEN_DATE 8640000000000000"
  by code_simp+

section \<open>The range of time values\<close>

text \<open>
  In a zone of constant offset of at most a day, the dates of a call of
  \<open>calculateBreakdown\<close> are all valid when both instants lie at least 64 days inside the
  range of time values: the dates of \<open>addMonthsClamped\<close> lie in the month of \<open>start\<close>, in
  the month of \<open>now\<close> or in the month before it, and those of the loop between the anchor
  and \<open>now\<close>. The temporary date of line 34 lies in the twentieth century when the target
  year is one of 0 to 99.
\<close>

lemma addMonthsClamped_dates_fixed:
  fixes c tv N :: int
  defines "t \<equiv> tv + c"
  defines "k \<equiv> monthIndex (tv + c) + N"
  shows "addMonthsClamped_dates (fixedZone c) tv N =
     [tv,
      MakeDate (MakeDay 0 (monthIndex t) 1) (TimeWithinDay t) - c,
      MakeDate (MakeDay 0 k 1) (TimeWithinDay t) - c,
      MakeDate (MakeDay (MakeFullYear (k div 12)) (k mod 12 + 1) 0) 0 - c,
      addMonthsClamped (fixedZone c) tv N]"
proof -
  define z where "z = fixedZone c"
  define y m d tod where "y = YearFromTime t" and "m = MonthFromTime t"
    and "d = DateFromTime t" and "tod = TimeWithinDay t"
  define Y M where "Y = k div 12" and "M = k mod 12"
  have m: "0 \<le> m" "m \<le> 11" using MonthFromTime_range[of t] by (simp_all add: m_def)
  have M: "0 \<le> M" "M \<le> 11" by (simp_all add: M_def)
  have tod: "0 \<le> tod" "tod < msPerDay" using TimeWithinDay_range[of t] by (simp_all add: tod_def)
  have k: "k = 12 * y + m + N" by (simp add: k_def monthIndex_def y_def m_def t_def)
  have kYM: "12 * Y + M = k" by (simp add: Y_def M_def)
  define n1 where "n1 = setDate z (getTime tv) 1"
  have n1: "n1 + c = MakeDate (MakeDay y m 1) tod"
    by (simp add: n1_def z_def setDate_fixed getTime_def y_def m_def tod_def t_def)
  have c1: "YearFromTime (n1 + c) = y" "MonthFromTime (n1 + c) = m"
    "DateFromTime (n1 + c) = 1" "TimeWithinDay (n1 + c) = tod"
    unfolding n1 using m tod DaysInMonth_ge_1[of y m] by (simp_all add: civil_of_MakeDate)
  have "MakeDay y m 1 = MakeDay 0 (monthIndex t) 1"
    by (rule MakeDay_month_index) (simp add: monthIndex_def y_def m_def)
  then have n1': "n1 = MakeDate (MakeDay 0 (monthIndex t) 1) tod - c"
    using n1 by simp
  define n2 where "n2 = setMonth z n1 (getMonth z n1 + N)"
  have "n2 + c = MakeDate (MakeDay y (m + N) 1) tod"
    by (simp add: n2_def z_def setMonth_def getMonth_def LocalTime_fixed UTC_fixed Let_def c1)
  also have "MakeDay y (m + N) 1 = MakeDay Y M 1"
    by (rule MakeDay_month_index) (simp add: kYM k)
  finally have n2: "n2 + c = MakeDate (MakeDay Y M 1) tod" .
  have c2: "YearFromTime (n2 + c) = Y" "MonthFromTime (n2 + c) = M"
    "TimeWithinDay (n2 + c) = tod"
    unfolding n2 using M tod DaysInMonth_ge_1[of Y M] by (simp_all add: civil_of_MakeDate)
  have "MakeDay Y M 1 = MakeDay 0 k 1"
    by (rule MakeDay_month_index) (simp add: kYM)
  then have n2': "n2 = MakeDate (MakeDay 0 k 1) tod - c"
    using n2 by simp
  define ld where "ld = newDateYMD z (getFullYear z n2) (getMonth z n2 + 1) 0"
  have ld: "ld = MakeDate (MakeDay (MakeFullYear Y) (M + 1) 0) 0 - c"
    by (simp add: ld_def z_def newDateYMD_def getFullYear_def getMonth_def LocalTime_fixed
        UTC_fixed Let_def c2 MakeTime_def)
  have "addMonthsClamped_dates z tv N =
      [tv, n1, n2, ld, setDate z n2 (min (getDate z (getTime tv)) (getDate z ld))]"
    by (simp add: addMonthsClamped_dates_def Let_def n1_def n2_def ld_def getTime_def)
  moreover have "addMonthsClamped z tv N = setDate z n2 (min (getDate z (getTime tv)) (getDate z ld))"
    by (simp add: addMonthsClamped_def Let_def n1_def n2_def ld_def)
  ultimately show ?thesis
    by (simp add: n1' n2' ld z_def tod_def Y_def M_def)
qed

lemma validTime_iff: "validTime t \<longleftrightarrow> - 8640000000000000 \<le> t \<and> t \<le> 8640000000000000"
  by (auto simp: validTime_def TimeClip_def)

lemma validTime_between:
  assumes "validTime a" "validTime b" "a \<le> x" "x \<le> b"
  shows "validTime x"
  using assms by (simp add: validTime_iff)

lemma validTime_of_day:
  assumes "\<bar>c\<bar> \<le> msPerDay" "0 \<le> r" "r < msPerDay" "- 99999999 \<le> X" "X \<le> 99999998"
  shows "validTime (MakeDate X r - c)"
proof -
  define P where "P = X * msPerDay"
  have "- 8639999913600000 \<le> P" "P \<le> 8639999827200000"
    using assms(4,5) by (simp_all add: P_def msPerDay_def)
  moreover have "- 86400000 \<le> c" "c \<le> 86400000"
    using assms(1) by (simp_all add: msPerDay_def abs_le_iff)
  ultimately show ?thesis
    unfolding validTime_iff MakeDate_def P_def[symmetric]
    using assms(2,3) by (simp add: msPerDay_def)
qed

lemma Day_bounds: "Day t * msPerDay \<le> t" "t < Day t * msPerDay + msPerDay"
  using div_bounds[of msPerDay t] by (simp_all add: Day_def msPerDay_def mult.commute)

lemma lastDate_day: "MakeDay F (M + 1) 0 = MakeDay 0 (12 * F + M + 1) 1 - 1"
proof -
  have "MakeDay F (M + 1) 0 = MakeDay F (M + 1) 1 - 1"
    using MakeDay_date[of F "M + 1" 1 "- 1"] by simp
  also have "MakeDay F (M + 1) 1 = MakeDay 0 (12 * F + M + 1) 1"
    by (rule MakeDay_month_index) simp
  finally show ?thesis .
qed

lemma firstDay_of_month: "Day t - 30 \<le> MakeDay 0 (monthIndex t) 1" "MakeDay 0 (monthIndex t) 1 \<le> Day t"
proof -
  have "Day t < MakeDay 0 (monthIndex t) 1 + DaysInMonth (monthIndex t div 12) (monthIndex t mod 12)"
    using Day_month_bracket(2)[of t] by (simp add: firstDay_next)
  then show "Day t - 30 \<le> MakeDay 0 (monthIndex t) 1"
    using DaysInMonth_range[of "monthIndex t div 12" "monthIndex t mod 12"] by simp
  show "MakeDay 0 (monthIndex t) 1 \<le> Day t" by (rule Day_month_bracket(1))
qed

lemma lastDate_quirk_bounds:
  assumes "0 \<le> Y" "Y \<le> 99" "0 \<le> M" "M \<le> 11"
  shows "- 25567 \<le> MakeDay (1900 + Y) (M + 1) 0" "MakeDay (1900 + Y) (M + 1) 0 \<le> 10956"
proof -
  define k where "k = 12 * (1900 + Y) + M"
  have e: "MakeDay (1900 + Y) (M + 1) 0 = MakeDay 0 (k + 1) 1 - 1"
    unfolding k_def by (rule lastDate_day)
  have lo: "MakeDay 0 (12 * 1900) 1 \<le> MakeDay 0 k 1"
    by (rule firstDay_mono) (use assms in \<open>simp add: k_def\<close>)
  have hi: "MakeDay 0 (k + 1) 1 \<le> MakeDay 0 (12 * 2000) 1"
    by (rule firstDay_mono) (use assms in \<open>simp add: k_def\<close>)
  have v: "MakeDay 0 (12 * 1900) 1 = - 25567" "MakeDay 0 (12 * 2000) 1 = 10957" by code_simp+
  have "MakeDay 0 k 1 < MakeDay 0 (k + 1) 1" by (rule firstDay_strict_mono) simp
  then show "- 25567 \<le> MakeDay (1900 + Y) (M + 1) 0" "MakeDay (1900 + Y) (M + 1) 0 \<le> 10956"
    using lo hi unfolding e v by simp_all
qed

lemma addMonthsClamped_valid_fixed:
  fixes c tv N :: int
  defines "k \<equiv> monthIndex (tv + c) + N"
  assumes c: "\<bar>c\<bar> \<le> msPerDay" and tv: "validTime tv"
    and d: "- 99999969 \<le> Day (tv + c)" "Day (tv + c) \<le> 99999998"
    and k: "- 99999999 \<le> MakeDay 0 k 1" "MakeDay 0 k 1 \<le> 99999967"
  shows "addMonthsClamped_valid (fixedZone c) tv N"
proof -
  define t where "t = tv + c"
  define tod where "tod = TimeWithinDay t"
  define Y M where "Y = k div 12" and "M = k mod 12"
  have tod: "0 \<le> tod" "tod < msPerDay" using TimeWithinDay_range[of t] by (simp_all add: tod_def)
  have M: "0 \<le> M" "M \<le> 11" by (simp_all add: M_def)
  have kYM: "12 * Y + M = k" by (simp add: Y_def M_def)
  have v1: "validTime (MakeDate (MakeDay 0 (monthIndex t) 1) tod - c)"
    using firstDay_of_month[of t] d
    by (intro validTime_of_day c tod) (simp_all add: t_def)
  have v2: "validTime (MakeDate (MakeDay 0 k 1) tod - c)"
    using k by (intro validTime_of_day c tod) simp_all
  have v3: "validTime (MakeDate (MakeDay (MakeFullYear Y) (M + 1) 0) 0 - c)"
  proof (cases "0 \<le> Y \<and> Y \<le> 99")
    case True
    then show ?thesis
      using lastDate_quirk_bounds[of Y M] M
      by (intro validTime_of_day c) (simp_all add: MakeFullYear_def msPerDay_def)
  next
    case False
    then have f: "MakeFullYear Y = Y" by (auto simp: MakeFullYear_def)
    have "MakeDay Y (M + 1) 0 = MakeDay 0 k 1 + DaysInMonth Y M - 1"
      using lastDate_day[of Y M] firstDay_next[of k] by (simp add: kYM Y_def M_def)
    then show ?thesis
      unfolding f using k DaysInMonth_range[of Y M]
      by (intro validTime_of_day c) (simp_all add: msPerDay_def)
  qed
  define dd where "dd = min (DateFromTime t) (clampedLastDay k)"
  have dd: "1 \<le> dd" "dd \<le> 31"
    using DateFromTime_range[of t] clampedLastDay_bounds(1)[of k] clampedLastDay_le_31[of k]
    by (simp_all add: dd_def)
  have "addMonthsClamped (fixedZone c) tv N = MakeDate (MakeDay 0 k 1 + (dd - 1)) tod - c"
    using anchor_local[of c tv N] by (simp add: k_def dd_def tod_def t_def)
  moreover have "validTime (MakeDate (MakeDay 0 k 1 + (dd - 1)) tod - c)"
    using k dd by (intro validTime_of_day c tod) simp_all
  ultimately have v4: "validTime (addMonthsClamped (fixedZone c) tv N)" by simp
  show ?thesis
    unfolding addMonthsClamped_valid_def addMonthsClamped_dates_fixed
    using tv v1 v2 v3 v4 by (simp add: t_def tod_def k_def Y_def M_def)
qed

lemma addMonthsClamped_valid_result:
  "addMonthsClamped_valid z d N \<Longrightarrow> validTime (addMonthsClamped z d N)"
  by (simp add: addMonthsClamped_valid_def addMonthsClamped_dates_def addMonthsClamped_def
      Let_def getTime_def)

lemma floor_multiple:
  fixes x k :: int
  assumes "0 < k" "0 \<le> x"
  shows "0 \<le> x div k * k" and "x div k * k \<le> x"
proof -
  have "0 \<le> x div k" using assms by (simp add: pos_imp_zdiv_nonneg_iff)
  then show "0 \<le> x div k * k" using assms(1) by simp
  show "x div k * k \<le> x" using div_bounds(1)[OF assms(1), of x] by (simp add: mult.commute)
qed

lemma peelUnits_dates_valid_fixed:
  assumes "validTime anchor" "validTime now" "anchor \<le> now"
  shows "list_all validTime (peelUnits_dates (fixedZone c) anchor now)"
proof -
  define a1 where "a1 = anchor + (now - anchor) div 86400000 * msPerDay"
  define a2 where "a2 = a1 + (now - a1) div 3600000 * msPerHour"
  define a3 where "a3 = a2 + (now - a2) div 60000 * msPerMinute"
  have e: "peelUnits_dates (fixedZone c) anchor now = [a1, a2, a3]"
    unfolding peelUnits_dates_def Let_def getTime_def
    by (simp add: setDate_advance setHours_advance setMinutes_advance a1_def a2_def a3_def)
  have b1: "anchor \<le> a1" "a1 \<le> now"
    using floor_multiple[of 86400000 "now - anchor"] assms(3)
    by (simp_all add: a1_def msPerDay_def)
  have b2: "a1 \<le> a2" "a2 \<le> now"
    using floor_multiple[of 3600000 "now - a1"] b1(2)
    by (simp_all add: a2_def msPerHour_def)
  have b3: "a2 \<le> a3" "a3 \<le> now"
    using floor_multiple[of 60000 "now - a2"] b2(2)
    by (simp_all add: a3_def msPerMinute_def)
  have "validTime a1" "validTime a2" "validTime a3"
    using assms(1,2) b1 b2 b3 by (simp_all add: validTime_iff)
  then show ?thesis by (simp add: e)
qed

lemma Day_mono: "t \<le> t' \<Longrightarrow> Day t \<le> Day t'"
  by (simp add: Day_def msPerDay_def zdiv_mono1)

lemma Day_in_range:
  assumes "\<bar>c\<bar> \<le> msPerDay" "\<bar>t\<bar> \<le> 8640000000000000 - 64 * msPerDay"
  shows "- 99999937 \<le> Day (t + c)" "Day (t + c) \<le> 99999937"
proof -
  have c: "- 86400000 \<le> c" "c \<le> 86400000"
    using assms(1) by (simp_all add: msPerDay_def abs_le_iff)
  have t: "- 8639994470400000 \<le> t" "t \<le> 8639994470400000"
    using assms(2) by (simp_all add: msPerDay_def abs_le_iff)
  have "Day (- 8639994556800000) \<le> Day (t + c)" by (rule Day_mono) (use c t in simp)
  moreover have "Day (t + c) \<le> Day 8639994556800000" by (rule Day_mono) (use c t in simp)
  moreover have "Day (- 8639994556800000) = - 99999937" "Day 8639994556800000 = 99999937"
    by code_simp+
  ultimately show "- 99999937 \<le> Day (t + c)" "Day (t + c) \<le> 99999937" by simp_all
qed

lemma calculateBreakdown_valid_in_range:
  assumes c: "\<bar>c\<bar> \<le> msPerDay"
    and s: "\<bar>start\<bar> \<le> 8640000000000000 - 64 * msPerDay"
    and n: "\<bar>now\<bar> \<le> 8640000000000000 - 64 * msPerDay"
  shows "calculateBreakdown_valid (fixedZone c) start now"
proof -
  define z where "z = fixedZone c"
  have vs: "validTime start" and vn: "validTime now"
    using s n by (simp_all add: validTime_iff msPerDay_def abs_le_iff)
  show ?thesis
  proof (cases "now \<le> start")
    case True
    then show ?thesis
      using vs vn by (simp add: calculateBreakdown_valid_def calculateBreakdown_dates_def)
  next
    case False
    then have lt: "start < now" by simp
    define ks kn where "ks = monthIndex (start + c)" and "kn = monthIndex (now + c)"
    define total where "total = totalMonths z start now"
    have kn: "ks + total = kn" by (simp add: total_def z_def totalMonths_fixed ks_def kn_def)
    have Ds: "- 99999937 \<le> Day (start + c)" "Day (start + c) \<le> 99999937"
      using Day_in_range[OF c s] by simp_all
    have Dn: "- 99999937 \<le> Day (now + c)" "Day (now + c) \<le> 99999937"
      using Day_in_range[OF c n] by simp_all
    have F: "Day (now + c) - 30 \<le> MakeDay 0 kn 1" "MakeDay 0 kn 1 \<le> Day (now + c)"
      using firstDay_of_month[of "now + c"] by (simp_all add: kn_def)
    have F1: "MakeDay 0 kn 1 - 31 \<le> MakeDay 0 (kn - 1) 1" "MakeDay 0 (kn - 1) 1 \<le> MakeDay 0 kn 1"
      using firstDay_prev[of kn] DaysInMonth_range[of "(kn - 1) div 12" "(kn - 1) mod 12"]
      by simp_all
    have v0: "addMonthsClamped_valid z start total"
      unfolding z_def
      by (rule addMonthsClamped_valid_fixed[OF c vs])
        (use Ds Dn F kn in \<open>simp_all add: ks_def\<close>)
    have v1: "addMonthsClamped_valid z start (total - 1)"
      unfolding z_def
    proof (rule addMonthsClamped_valid_fixed[OF c vs])
      have e: "monthIndex (start + c) + (total - 1) = kn - 1" using kn by (simp add: ks_def)
      show "- 99999999 \<le> MakeDay 0 (monthIndex (start + c) + (total - 1)) 1"
        and "MakeDay 0 (monthIndex (start + c) + (total - 1)) 1 \<le> 99999967"
        unfolding e using F F1 Dn by simp_all
    qed (use Ds in simp_all)
    have va: "validTime (monthAnchor z start now)"
      using addMonthsClamped_valid_result[OF v0] addMonthsClamped_valid_result[OF v1]
      by (simp add: monthAnchor_def Let_def total_def)
    have le: "monthAnchor z start now \<le> now"
      unfolding z_def by (rule monthAnchor_fixed_le[OF lt])
    have vp: "list_all validTime (peelUnits_dates z (monthAnchor z start now) now)"
      unfolding z_def by (rule peelUnits_dates_valid_fixed) (use va vn le in \<open>simp_all add: z_def\<close>)
    show ?thesis
      unfolding calculateBreakdown_valid_def calculateBreakdown_dates_def z_def[symmetric]
      using False vs vn v0 v1 vp
      by (simp add: Let_def getTime_def total_def addMonthsClamped_valid_def)
  qed
qed


section \<open>The program on the store\<close>

text \<open>
  Each function on the store returns what the function on time values returns, and a
  store that extends the one it was given.
\<close>

lemma addMonthsClamped_store_spec:
  assumes "date < length h"
  shows "\<exists>p. addMonthsClamped_store z h date N =
     (length h, h @ [addMonthsClamped z (h ! date) N, p])"
  using assms
  by (simp add: addMonthsClamped_store_def addMonthsClamped_def newDate_def Let_def
      nth_append getTime_def)


lemma peelUnits_store_spec:
  assumes "anchor < length h" "now < length h" "anchor \<noteq> now"
  shows "\<exists>v. peelUnits_store z h anchor now =
     (peelUnits z (h ! anchor) (h ! now), h[anchor := v])"
  using assms
  by (simp add: peelUnits_store_def peelUnits_def Let_def getTime_def) (rule exI, rule refl)

lemma calculateBreakdown_store_spec:
  assumes "startDate < length h" "now < length h"
  shows "\<exists>ys. calculateBreakdown_store z h startDate now =
     (calculateBreakdown z (h ! startDate) (h ! now), h @ ys)"
proof (cases "h ! now \<le> h ! startDate")
  case True
  then show ?thesis by (simp add: calculateBreakdown_store_def calculateBreakdown_def)
next
  case False
  define sv nv where "sv = h ! startDate" and "nv = h ! now"
  define total where "total = totalMonths z sv nv"
  define a0 where "a0 = addMonthsClamped z sv total"
  define a1 where "a1 = addMonthsClamped z sv (total - 1)"
  define L where "L = length h"
  have total: "getFullYear z nv * 12 - getFullYear z sv * 12 + (getMonth z nv - getMonth z sv)
      = total"
    by (simp add: total_def totalMonths_def)
  obtain p0 where c0: "addMonthsClamped_store z (h @ [sv]) L total =
      (Suc L, h @ [sv, a0, p0])"
    using addMonthsClamped_store_spec[of "length h" "h @ [sv]" z total]
    by (auto simp: a0_def L_def)
  obtain p1 where c1: "addMonthsClamped_store z (h @ [sv, a0, p0]) L (total - 1) =
      (Suc (Suc (Suc L)), h @ [sv, a0, p0, a1, p1])"
    using addMonthsClamped_store_spec[of "length h" "h @ [sv, a0, p0]" z "total - 1"]
    by (auto simp: a1_def nth_append L_def)
  have pure: "calculateBreakdown z sv nv =
      (let adj = adjustedTotalMonths z sv nv; u = peelUnits z (monthAnchor z sv nv) nv
       in \<lparr>years = adj div 12, months = adj smod 12, days = fst u, hours = fst (snd u),
           minutes = fst (snd (snd u)), seconds = snd (snd (snd u))\<rparr>)"
    using False by (simp add: calculateBreakdown_stages sv_def nv_def)
  have head: "calculateBreakdown_store z h startDate now =
      (let (adjustedTotalMonths, anchor, h) =
             (if a0 > nv then (total - 1, Suc (Suc (Suc L)), h @ [sv, a0, p0, a1, p1])
              else (total, Suc L, h @ [sv, a0, p0]));
           ((days, hours, minutes, seconds), h) = peelUnits_store z h anchor now
       in (\<lparr>years = adjustedTotalMonths div 12, months = adjustedTotalMonths smod 12,
            days = days, hours = hours, minutes = minutes, seconds = seconds\<rparr>, h))"
    using False assms
    by (simp add: calculateBreakdown_store_def newDate_def getTime_def nth_append
        sv_def[symmetric] nv_def[symmetric] L_def[symmetric] total c0 c1 Let_def)
  show ?thesis
  proof (cases "a0 > nv")
    case True
    then have adj: "adjustedTotalMonths z sv nv = total - 1" "monthAnchor z sv nv = a1"
      by (simp_all add: adjustedTotalMonths_def monthAnchor_def Let_def total_def a0_def a1_def)
    obtain v where pe: "peelUnits_store z (h @ [sv, a0, p0, a1, p1]) (Suc (Suc (Suc L))) now
        = (peelUnits z a1 nv, (h @ [sv, a0, p0, a1, p1])[Suc (Suc (Suc L)) := v])"
      using peelUnits_store_spec[of "Suc (Suc (Suc L))" "h @ [sv, a0, p0, a1, p1]" now z] assms
      by (auto simp: nth_append L_def nv_def)
    have "(h @ [sv, a0, p0, a1, p1])[Suc (Suc (Suc L)) := v] = h @ [sv, a0, p0, v, p1]"
      by (simp add: L_def list_update_append)
    then show ?thesis
      unfolding head sv_def[symmetric] nv_def[symmetric] pure adj
      using True by (simp add: pe Let_def split_beta)
  next
    case F2: False
    then have adj: "adjustedTotalMonths z sv nv = total" "monthAnchor z sv nv = a0"
      by (simp_all add: adjustedTotalMonths_def monthAnchor_def Let_def total_def a0_def)
    obtain v where pe: "peelUnits_store z (h @ [sv, a0, p0]) (Suc L) now
        = (peelUnits z a0 nv, (h @ [sv, a0, p0])[Suc L := v])"
      using peelUnits_store_spec[of "Suc L" "h @ [sv, a0, p0]" now z] assms
      by (auto simp: nth_append L_def nv_def)
    have "(h @ [sv, a0, p0])[Suc L := v] = h @ [sv, v, p0]"
      by (simp add: L_def list_update_append)
    then show ?thesis
      unfolding head sv_def[symmetric] nv_def[symmetric] pure adj
      using F2 by (simp add: pe Let_def split_beta)
  qed
qed

lemma calculateOverrunPercent_store_pure:
  "calculateOverrunPercent_store h now =
     overrunPercent PLANNED_DURATION_MS (h ! breakGroundRef) (h ! now)"
  by (simp add: calculateOverrunPercent_store_def overrunPercent_def)

lemma tick_spec:
  assumes "breakGroundRef < length h" "projectedOpenRef < length h"
  shows "\<exists>ys. tick z h clock =
     ((calculateBreakdown z (h ! breakGroundRef) clock,
       calculateBreakdown z (h ! projectedOpenRef) clock,
       overrunPercent PLANNED_DURATION_MS (h ! breakGroundRef) clock), h @ ys)"
proof -
  define L where "L = length h"
  obtain ys1 where b1: "calculateBreakdown_store z (h @ [clock]) breakGroundRef L =
      (calculateBreakdown z (h ! breakGroundRef) clock, (h @ [clock]) @ ys1)"
    using calculateBreakdown_store_spec[of breakGroundRef "h @ [clock]" "length h" z] assms
    by (auto simp: nth_append L_def)
  obtain ys2 where b2: "calculateBreakdown_store z ((h @ [clock]) @ ys1) projectedOpenRef L =
      (calculateBreakdown z (h ! projectedOpenRef) clock, ((h @ [clock]) @ ys1) @ ys2)"
    using calculateBreakdown_store_spec[of projectedOpenRef "(h @ [clock]) @ ys1" "length h" z]
      assms
    by (auto simp: nth_append L_def)
  have "tick z h clock =
     ((calculateBreakdown z (h ! breakGroundRef) clock,
       calculateBreakdown z (h ! projectedOpenRef) clock,
       overrunPercent PLANNED_DURATION_MS (h ! breakGroundRef) clock),
      h @ (clock # ys1 @ ys2))"
    using assms b1 b2
    by (simp add: tick_def newDate_def L_def[symmetric] calculateOverrunPercent_store_pure
        nth_append)
  then show ?thesis by blast
qed

lemma ticks_extend:
  assumes "breakGroundRef < length h" "projectedOpenRef < length h"
  shows "\<exists>ys. ticks z h clocks = h @ ys"
  using assms
proof (induction clocks arbitrary: h)
  case Nil
  then show ?case by simp
next
  case (Cons clock clocks)
  obtain ys where t: "snd (tick z h clock) = h @ ys"
    using tick_spec[OF Cons.prems, of z clock] by auto
  have "\<exists>zs. ticks z (h @ ys) clocks = (h @ ys) @ zs"
    using Cons.prems by (intro Cons.IH) simp_all
  then show ?case by (auto simp: t)
qed


section \<open>The claims\<close>

text \<open>
  Where a claim speaks of every pair of instants, its theorem is about every host zone of
  constant offset \<open>fixedZone c\<close> unless it says otherwise: there local time is UTC plus
  \<open>c\<close> milliseconds. Zones with transitions enter by name. The theorems about all instants
  assume that the dates of the call are valid (\<open>calculateBreakdown_valid\<close>,
  \<open>addMonthsClamped_valid\<close>): where a date leaves the range of time values the program
  computes with \<^verbatim>\<open>NaN\<close>, of which these theorems say nothing.
\<close>




text \<open>
  C2. When \<open>now\<close> is at or before the start instant, \<open>calculateBreakdown\<close> returns the
  breakdown whose six fields are all 0, whatever the time zone of the host.
\<close>

theorem calculateBreakdown_not_after_start:
  "now \<le> startDate \<Longrightarrow>
     calculateBreakdown z startDate now =
       \<lparr>years = 0, months = 0, days = 0, hours = 0, minutes = 0, seconds = 0\<rparr>"
  by (simp add: calculateBreakdown_def)

theorem calculateBreakdown_not_after_start_witness:
  "(1320814800000::int) \<le> 1609390800000 \<and>
   calculateBreakdown (fixedZone (- 18000000)) 1609390800000 1320814800000 =
     \<lparr>years = 0, months = 0, days = 0, hours = 0, minutes = 0, seconds = 0\<rparr>"
  using calculateBreakdown_not_after_start
    [of 1320814800000 1609390800000 "fixedZone (- 18000000)"]
  by simp


text \<open>
  C4, as amended. In a host zone of constant offset, for every date and month count for
  which the dates of the call are valid and the target month does not lie in the year 0:
  the result lies in the month \<open>N\<close> calendar months after the month of \<open>d\<close>, on the day
  of the month of \<open>d\<close> or on the last day of the target month if that is less, with the
  hour, minute, second and millisecond of \<open>d\<close>; it is the clamped month addition of the
  specification. The year 0, which the \<^verbatim>\<open>Date\<close> constructor of line 34 reads as 1900, is
  left out; the program does not reach it, its two start dates being of 2011 and 2020.
\<close>

theorem addMonthsClamped_constant_offset:
  fixes c d N :: int
  defines "z \<equiv> fixedZone c"
  defines "r \<equiv> addMonthsClamped (fixedZone c) d N"
  assumes "addMonthsClamped_valid (fixedZone c) d N"
    and "getFullYear (fixedZone c) (addMonthsClamped (fixedZone c) d N) \<noteq> 0"
  shows "12 * getFullYear z r + getMonth z r = 12 * getFullYear z d + getMonth z d + N
     \<and> 0 \<le> getMonth z r \<and> getMonth z r \<le> 11
     \<and> getDate z r = min (getDate z d) (DaysInMonth (getFullYear z r) (getMonth z r))
     \<and> getHours z r = getHours z d
     \<and> getMinutes z r = getMinutes z d
     \<and> SecFromTime (LocalTime z r) = SecFromTime (LocalTime z d)
     \<and> msFromTime (LocalTime z r) = msFromTime (LocalTime z d)
     \<and> r = clampedMonthAdvance z d N"
proof -
  have k: "monthIndex (LocalTime z r) = monthIndex (LocalTime z d) + N"
    and t: "TimeWithinDay (LocalTime z r) = TimeWithinDay (LocalTime z d)"
    unfolding z_def r_def by (rule addMonthsClamped_target)+
  have dt: "getDate z r = min (getDate z d) (DaysInMonth (getFullYear z r) (getMonth z r))"
    unfolding z_def r_def using assms(4) by (rule addMonthsClamped_target(3))
  have "(monthIndex (d + c) + N) div 12 \<noteq> 0"
    using assms(4) by (simp add: getFullYear_anchor)
  then have sp: "r = clampedMonthAdvance z d N"
    unfolding z_def r_def by (rule addMonthsClamped_is_clampedMonthAdvance)
  have "12 * getFullYear z r + getMonth z r = 12 * getFullYear z d + getMonth z d + N"
    using k by (simp add: monthIndex_def getFullYear_def getMonth_def)
  moreover have "0 \<le> getMonth z r \<and> getMonth z r \<le> 11"
    using MonthFromTime_range[of "LocalTime z r"] by (simp add: getMonth_def)
  moreover have "getHours z r = getHours z d \<and> getMinutes z r = getMinutes z d
      \<and> SecFromTime (LocalTime z r) = SecFromTime (LocalTime z d)
      \<and> msFromTime (LocalTime z r) = msFromTime (LocalTime z d)"
    by (simp add: getHours_def getMinutes_def time_components t)
  ultimately show ?thesis using dt sp by blast
qed

theorem addMonthsClamped_constant_offset_witness:
  "addMonthsClamped_valid (fixedZone (- 18000000)) PROJECTED_OPEN_DATE 2
   \<and> getFullYear (fixedZone (- 18000000))
         (addMonthsClamped (fixedZone (- 18000000)) PROJECTED_OPEN_DATE 2) \<noteq> 0
   \<and> getDate (fixedZone (- 18000000))
         (addMonthsClamped (fixedZone (- 18000000)) PROJECTED_OPEN_DATE 2) = 28
   \<and> getDate (fixedZone (- 18000000))
         (addMonthsClamped (fixedZone (- 18000000)) PROJECTED_OPEN_DATE 2)
       = min (getDate (fixedZone (- 18000000)) PROJECTED_OPEN_DATE)
           (DaysInMonth
             (getFullYear (fixedZone (- 18000000))
               (addMonthsClamped (fixedZone (- 18000000)) PROJECTED_OPEN_DATE 2))
             (getMonth (fixedZone (- 18000000))
               (addMonthsClamped (fixedZone (- 18000000)) PROJECTED_OPEN_DATE 2)))
   \<and> addMonthsClamped (fixedZone (- 18000000)) PROJECTED_OPEN_DATE 2
       = clampedMonthAdvance (fixedZone (- 18000000)) PROJECTED_OPEN_DATE 2"
proof -
  have v: "addMonthsClamped_valid (fixedZone (- 18000000)) PROJECTED_OPEN_DATE 2"
    by code_simp
  have y: "getFullYear (fixedZone (- 18000000))
      (addMonthsClamped (fixedZone (- 18000000)) PROJECTED_OPEN_DATE 2) \<noteq> 0"
    by code_simp
  have d: "getDate (fixedZone (- 18000000))
      (addMonthsClamped (fixedZone (- 18000000)) PROJECTED_OPEN_DATE 2) = 28"
    by code_simp
  show ?thesis
    using addMonthsClamped_constant_offset[OF v y] v y d by blast
qed

text \<open>
  C4 as stated fails where the host zone skips the target time. In Saint Pierre and
  Miquelon the start constant of the module is 9 November 2011 02:00, and in March 2025
  the raw month count is 160; the date 160 months later is 9 March 2025, on which the
  clocks go from 02:00 to 03:00, and \<open>addMonthsClamped\<close> returns 03:00. All dates of the
  call are valid.
\<close>

theorem addMonthsClamped_changes_skipped_time_of_day:
  "getFullYear America_Miquelon BREAK_GROUND_DATE = 2011
   \<and> getMonth America_Miquelon BREAK_GROUND_DATE = 10
   \<and> getDate America_Miquelon BREAK_GROUND_DATE = 9
   \<and> getHours America_Miquelon BREAK_GROUND_DATE = 2
   \<and> getMinutes America_Miquelon BREAK_GROUND_DATE = 0
   \<and> totalMonths America_Miquelon BREAK_GROUND_DATE 1741496400000 = 160
   \<and> addMonthsClamped_valid America_Miquelon BREAK_GROUND_DATE 160
   \<and> addMonthsClamped America_Miquelon BREAK_GROUND_DATE 160 = 1741496400000
   \<and> getFullYear America_Miquelon 1741496400000 = 2025
   \<and> getMonth America_Miquelon 1741496400000 = 2
   \<and> getDate America_Miquelon 1741496400000 = 9
   \<and> getHours America_Miquelon 1741496400000 = 3
   \<and> getMinutes America_Miquelon 1741496400000 = 0
   \<and> getHours America_Miquelon (addMonthsClamped America_Miquelon BREAK_GROUND_DATE 160)
       \<noteq> getHours America_Miquelon BREAK_GROUND_DATE"
  by code_simp

text \<open>
  C5, as amended. For \<open>start < now\<close> and valid dates, in every host zone: the years and
  months that \<open>calculateBreakdown\<close> reports are the quotient and the remainder by 12 of
  the raw count \<open>totalMonths\<close> less one exactly when the anchor of the raw count is after
  \<open>now\<close>, and of the raw count itself otherwise; the anchor is recomputed in the first
  case only; and the days, hours, minutes and seconds are those that the loop finds
  between this anchor and \<open>now\<close>. In a host zone of constant offset the anchor so left is
  not after \<open>now\<close>, the days are not negative, and the count so adjusted is
  \<open>years * 12 + months\<close>.
\<close>

theorem month_decrement_only_on_overshoot:
  assumes "start < now"
    and "calculateBreakdown_valid z start now"
    and "calculateBreakdown_valid (fixedZone c) start now"
  shows "years (calculateBreakdown z start now) =
           (if addMonthsClamped z start (totalMonths z start now) > now
            then totalMonths z start now - 1 else totalMonths z start now) div 12
       \<and> months (calculateBreakdown z start now) =
           (if addMonthsClamped z start (totalMonths z start now) > now
            then totalMonths z start now - 1 else totalMonths z start now) smod 12
       \<and> monthAnchor z start now =
           (if addMonthsClamped z start (totalMonths z start now) > now
            then addMonthsClamped z start (totalMonths z start now - 1)
            else addMonthsClamped z start (totalMonths z start now))
       \<and> (days (calculateBreakdown z start now), hours (calculateBreakdown z start now),
          minutes (calculateBreakdown z start now), seconds (calculateBreakdown z start now))
           = peelUnits z (monthAnchor z start now) now
       \<and> days (calculateBreakdown z start now) = (now - monthAnchor z start now) div msPerDay
       \<and> monthAnchor (fixedZone c) start now \<le> now
       \<and> 0 \<le> days (calculateBreakdown (fixedZone c) start now)
       \<and> years (calculateBreakdown (fixedZone c) start now) * 12
             + months (calculateBreakdown (fixedZone c) start now) =
           (if addMonthsClamped (fixedZone c) start (totalMonths (fixedZone c) start now) > now
            then totalMonths (fixedZone c) start now - 1
            else totalMonths (fixedZone c) start now)"
proof -
  have any: "years (calculateBreakdown z start now) = adjustedTotalMonths z start now div 12"
      "months (calculateBreakdown z start now) = adjustedTotalMonths z start now smod 12"
      "(days (calculateBreakdown z start now), hours (calculateBreakdown z start now),
        minutes (calculateBreakdown z start now), seconds (calculateBreakdown z start now))
         = peelUnits z (monthAnchor z start now) now"
    for z
    using assms(1) by (simp_all add: calculateBreakdown_stages Let_def)
  have d: "days (calculateBreakdown z start now)
      = (now - monthAnchor z start now) div msPerDay" for z
    using arg_cong[OF any(3)[of z], of fst]
    by (simp add: peelUnits_def Let_def getTime_def msPerDay_def)
  define adj where "adj = adjustedTotalMonths (fixedZone c) start now"
  have adj: "0 \<le> adj"
    using adjustedTotalMonths_fixed_nonneg[OF assms(1), of c] by (simp add: adj_def)
  have "adj smod 12 = adj mod 12" using adj by (rule smod_nonneg)
  then have "adj div 12 * 12 + adj smod 12 = adj" by simp
  then have ym: "years (calculateBreakdown (fixedZone c) start now) * 12
      + months (calculateBreakdown (fixedZone c) start now) = adj"
    by (simp add: any adj_def)
  have le: "monthAnchor (fixedZone c) start now \<le> now"
    by (rule monthAnchor_fixed_le[OF assms(1)])
  then have "0 \<le> (now - monthAnchor (fixedZone c) start now) div msPerDay"
    by (simp add: pos_imp_zdiv_nonneg_iff msPerDay_def)
  then have d0: "0 \<le> days (calculateBreakdown (fixedZone c) start now)"
    by (simp only: d)
  have a: "monthAnchor z start now =
           (if addMonthsClamped z start (totalMonths z start now) > now
            then addMonthsClamped z start (totalMonths z start now - 1)
            else addMonthsClamped z start (totalMonths z start now))"
    by (simp add: monthAnchor_def Let_def)
  show ?thesis
    using ym le d0 a d[of z] any(3)[of z]
    by (simp only: any(1,2) adjustedTotalMonths_cases adj_def)
qed

theorem month_decrement_only_on_overshoot_witness:
  "PROJECTED_OPEN_DATE < 1617163199000
   \<and> calculateBreakdown_valid America_Toronto PROJECTED_OPEN_DATE 1617163199000
   \<and> calculateBreakdown_valid (fixedZone (- 18000000)) PROJECTED_OPEN_DATE 1617163199000
   \<and> totalMonths America_Toronto PROJECTED_OPEN_DATE 1617163199000 = 3
   \<and> addMonthsClamped America_Toronto PROJECTED_OPEN_DATE 3 > 1617163199000
   \<and> years (calculateBreakdown America_Toronto PROJECTED_OPEN_DATE 1617163199000) = 0
   \<and> months (calculateBreakdown America_Toronto PROJECTED_OPEN_DATE 1617163199000) = 2
   \<and> monthAnchor (fixedZone (- 18000000)) PROJECTED_OPEN_DATE 1617163199000 \<le> 1617163199000"
proof -
  have s: "PROJECTED_OPEN_DATE < 1617163199000" by code_simp
  have v: "calculateBreakdown_valid America_Toronto PROJECTED_OPEN_DATE 1617163199000"
    by code_simp
  have w: "calculateBreakdown_valid (fixedZone (- 18000000)) PROJECTED_OPEN_DATE 1617163199000"
    by code_simp
  have t: "totalMonths America_Toronto PROJECTED_OPEN_DATE 1617163199000 = 3" by code_simp
  have a: "addMonthsClamped America_Toronto PROJECTED_OPEN_DATE 3 > 1617163199000"
    by code_simp
  show ?thesis
    using month_decrement_only_on_overshoot[OF s v w] s v w t a
    by (simp add: signed_modulo_int_def)
qed

text \<open>
  C5 as stated fails where the host zone skips the time of the recomputed anchor. In
  Singapore the local times from 23:30 to 24:00 of 31 December 1981 do not exist. For the
  start 31 October 1981 23:45 and now = 1 January 1982 00:05 the raw count is 3 and its
  anchor, 31 January 1982 23:45, is after \<open>now\<close>; the anchor of the count 2, 31 December
  1981 23:45, is read as 1 January 1982 00:15, ten minutes after \<open>now\<close>, and the breakdown
  has -1 days. All dates of the call are valid.
\<close>

theorem anchor_after_now_in_skipped_time:
  "(373392900000::int) < 378662700000
   \<and> getFullYear Asia_Singapore 373392900000 = 1981
   \<and> getMonth Asia_Singapore 373392900000 = 9
   \<and> getDate Asia_Singapore 373392900000 = 31
   \<and> getHours Asia_Singapore 373392900000 = 23
   \<and> getMinutes Asia_Singapore 373392900000 = 45
   \<and> getFullYear Asia_Singapore 378662700000 = 1982
   \<and> getMonth Asia_Singapore 378662700000 = 0
   \<and> getDate Asia_Singapore 378662700000 = 1
   \<and> getHours Asia_Singapore 378662700000 = 0
   \<and> getMinutes Asia_Singapore 378662700000 = 5
   \<and> calculateBreakdown_valid Asia_Singapore 373392900000 378662700000
   \<and> totalMonths Asia_Singapore 373392900000 378662700000 = 3
   \<and> addMonthsClamped Asia_Singapore 373392900000 3 > 378662700000
   \<and> addMonthsClamped Asia_Singapore 373392900000 2 = 378663300000
   \<and> monthAnchor Asia_Singapore 373392900000 378662700000 = 378663300000
   \<and> \<not> monthAnchor Asia_Singapore 373392900000 378662700000 \<le> 378662700000
   \<and> calculateBreakdown Asia_Singapore 373392900000 378662700000
       = \<lparr>years = 0, months = 2, days = - 1, hours = 23, minutes = 20, seconds = 0\<rparr>"
  by code_simp

text \<open>
  C6, as amended. In a host zone of constant offset, for \<open>start < now\<close> with valid dates
  and the anchor of the months not in the year 0: advancing \<open>start\<close> by
  \<open>years * 12 + months\<close> clamped calendar months, as the specification defines them, and
  then by the days, hours, minutes and seconds of the breakdown gives an instant that is
  not after \<open>now\<close> and less than one second before it, whether the units are applied as
  durations (\<open>reconstruct\<close>) or on the local calendar (\<open>reconstructCalendar\<close>). The year
  0 is left out as in C4.
\<close>

theorem reconstruction_within_one_second:
  assumes "start < now"
    and "getFullYear (fixedZone c) (monthAnchor (fixedZone c) start now) \<noteq> 0"
    and "calculateBreakdown_valid (fixedZone c) start now"
  shows "reconstruct (fixedZone c) start (calculateBreakdown (fixedZone c) start now) \<le> now
     \<and> now - reconstruct (fixedZone c) start (calculateBreakdown (fixedZone c) start now) < 1000
     \<and> reconstructCalendar (fixedZone c) start (calculateBreakdown (fixedZone c) start now)
         \<le> now
     \<and> now - reconstructCalendar (fixedZone c) start
               (calculateBreakdown (fixedZone c) start now) < 1000"
proof -
  define g where "g = now - monthAnchor (fixedZone c) start now"
  define adj where "adj = adjustedTotalMonths (fixedZone c) start now"
  have b: "calculateBreakdown (fixedZone c) start now =
      \<lparr>years = adj div 12, months = adj mod 12, days = g div msPerDay,
       hours = (g mod msPerDay) div msPerHour, minutes = (g mod msPerHour) div msPerMinute,
       seconds = (g mod msPerMinute) div msPerSecond\<rparr>"
    unfolding g_def adj_def by (rule breakdown_fixed[OF assms(1)])
  have ym: "years (calculateBreakdown (fixedZone c) start now) * 12
      + months (calculateBreakdown (fixedZone c) start now) = adj"
    unfolding b by simp
  have "(monthIndex (start + c) + adj) div 12 \<noteq> 0"
    using assms(2) by (simp add: adj_def monthAnchor_adjusted getFullYear_anchor)
  then have "clampedMonthAdvance (fixedZone c) start adj = addMonthsClamped (fixedZone c) start adj"
    by (rule addMonthsClamped_is_clampedMonthAdvance[symmetric])
  then have sp: "clampedMonthAdvance (fixedZone c) start adj = monthAnchor (fixedZone c) start now"
    by (simp add: adj_def monthAnchor_adjusted)
  have "reconstruct (fixedZone c) start (calculateBreakdown (fixedZone c) start now)
      = monthAnchor (fixedZone c) start now
        + (g div msPerDay * msPerDay + (g mod msPerDay) div msPerHour * msPerHour
           + (g mod msPerHour) div msPerMinute * msPerMinute
           + (g mod msPerMinute) div msPerSecond * msPerSecond)"
    unfolding reconstruct_def ym sp unfolding b by simp
  also have "\<dots> = now - g mod msPerSecond"
    unfolding mixed_radix by (simp add: g_def)
  finally have "now - reconstruct (fixedZone c) start (calculateBreakdown (fixedZone c) start now)
      = g mod 1000"
    by (simp add: msPerSecond_def)
  moreover have "0 \<le> g mod 1000" "g mod 1000 < 1000" by simp_all
  moreover have "reconstructCalendar (fixedZone c) start
        (calculateBreakdown (fixedZone c) start now)
      = advanceUnits (fixedZone c) (monthAnchor (fixedZone c) start now)
          (calculateBreakdown (fixedZone c) start now)"
    unfolding reconstructCalendar_def ym sp ..
  ultimately show ?thesis
    using advanceUnits_retraces[OF assms(1), of "fixedZone c"] by simp
qed

theorem reconstruction_within_one_second_witness:
  "BREAK_GROUND_DATE < 1762144200123
   \<and> getFullYear (fixedZone (- 18000000))
         (monthAnchor (fixedZone (- 18000000)) BREAK_GROUND_DATE 1762144200123) \<noteq> 0
   \<and> calculateBreakdown_valid (fixedZone (- 18000000)) BREAK_GROUND_DATE 1762144200123
   \<and> reconstruct (fixedZone (- 18000000)) BREAK_GROUND_DATE
         (calculateBreakdown (fixedZone (- 18000000)) BREAK_GROUND_DATE 1762144200123)
       \<le> 1762144200123
   \<and> 1762144200123 - reconstruct (fixedZone (- 18000000)) BREAK_GROUND_DATE
         (calculateBreakdown (fixedZone (- 18000000)) BREAK_GROUND_DATE 1762144200123) < 1000
   \<and> 1762144200123 - reconstructCalendar (fixedZone (- 18000000)) BREAK_GROUND_DATE
         (calculateBreakdown (fixedZone (- 18000000)) BREAK_GROUND_DATE 1762144200123) < 1000"
proof -
  have s: "BREAK_GROUND_DATE < 1762144200123" by code_simp
  have y: "getFullYear (fixedZone (- 18000000))
      (monthAnchor (fixedZone (- 18000000)) BREAK_GROUND_DATE 1762144200123) \<noteq> 0"
    by code_simp
  have v: "calculateBreakdown_valid (fixedZone (- 18000000)) BREAK_GROUND_DATE 1762144200123"
    by code_simp
  show ?thesis
    using reconstruction_within_one_second[OF s y v] s y v by simp
qed

text \<open>
  C6 as stated fails across a transition of the host zone. In America/Toronto, for the
  start constant of the module and now = 2 November 2025 23:30 EST, the breakdown has -1
  hours, and the units applied as durations end one hour before \<open>now\<close>. In Newfoundland,
  for the start 1 November 2009 00:00:30 and \<open>now\<close> half an hour later, after the clocks
  went back to 31 October 23:01, the raw month count is -1, the breakdown has -1 years
  and -1 months, and both reconstructions end a year before \<open>now\<close>. All dates of the two
  calls are valid.
\<close>

theorem reconstruction_misses_across_transition:
  "BREAK_GROUND_DATE < 1762144200000
   \<and> calculateBreakdown_valid America_Toronto BREAK_GROUND_DATE 1762144200000
   \<and> calculateBreakdown America_Toronto BREAK_GROUND_DATE 1762144200000
       = \<lparr>years = 13, months = 11, days = 25, hours = - 1, minutes = 30, seconds = 0\<rparr>
   \<and> 1762144200000 - reconstruct America_Toronto BREAK_GROUND_DATE
         (calculateBreakdown America_Toronto BREAK_GROUND_DATE 1762144200000) = 3600000
   \<and> (1257042630000::int) < 1257044400000
   \<and> calculateBreakdown_valid America_St_Johns 1257042630000 1257044400000
   \<and> totalMonths America_St_Johns 1257042630000 1257044400000 = - 1
   \<and> calculateBreakdown America_St_Johns 1257042630000 1257044400000
       = \<lparr>years = - 1, months = - 1, days = 31, hours = 0, minutes = 29, seconds = - 3570\<rparr>
   \<and> reconstruct America_St_Johns 1257042630000
         (calculateBreakdown America_St_Johns 1257042630000 1257044400000) = 1225504800000
   \<and> reconstructCalendar America_St_Johns 1257042630000
         (calculateBreakdown America_St_Johns 1257042630000 1257044400000) = 1225504800000
   \<and> \<not> 1257044400000 - reconstruct America_St_Johns 1257042630000
         (calculateBreakdown America_St_Johns 1257042630000 1257044400000) < 1000
   \<and> \<not> 1257044400000 - reconstructCalendar America_St_Johns 1257042630000
         (calculateBreakdown America_St_Johns 1257042630000 1257044400000) < 1000"
  by code_simp

text \<open>
  C7. From 31 January 2020 00:00:00 to 1 March 2020 00:00:00, both local times of a zone
  of constant offset, the breakdown is 1 month and 1 day (and nothing else); the anchor
  is 29 February 2020 00:00:00 local time. The breakdown is the same for the two local
  times of America/Toronto.
\<close>

theorem leap_year_jan31_to_mar1:
  "calculateBreakdown (fixedZone c)
     (UTC (fixedZone c) (MakeDate (MakeDay 2020 0 31) (MakeTime 0 0 0 0)))
     (UTC (fixedZone c) (MakeDate (MakeDay 2020 2 1) (MakeTime 0 0 0 0)))
   = \<lparr>years = 0, months = 1, days = 1, hours = 0, minutes = 0, seconds = 0\<rparr>
   \<and> monthAnchor (fixedZone c)
     (UTC (fixedZone c) (MakeDate (MakeDay 2020 0 31) (MakeTime 0 0 0 0)))
     (UTC (fixedZone c) (MakeDate (MakeDay 2020 2 1) (MakeTime 0 0 0 0)))
   = UTC (fixedZone c) (MakeDate (MakeDay 2020 1 29) (MakeTime 0 0 0 0))
   \<and> calculateBreakdown America_Toronto
     (UTC America_Toronto (MakeDate (MakeDay 2020 0 31) (MakeTime 0 0 0 0)))
     (UTC America_Toronto (MakeDate (MakeDay 2020 2 1) (MakeTime 0 0 0 0)))
   = \<lparr>years = 0, months = 1, days = 1, hours = 0, minutes = 0, seconds = 0\<rparr>"
proof -
  have toronto: "calculateBreakdown America_Toronto
     (UTC America_Toronto (MakeDate (MakeDay 2020 0 31) (MakeTime 0 0 0 0)))
     (UTC America_Toronto (MakeDate (MakeDay 2020 2 1) (MakeTime 0 0 0 0)))
   = \<lparr>years = 0, months = 1, days = 1, hours = 0, minutes = 0, seconds = 0\<rparr>"
    by code_simp
  have s: "MakeDate (MakeDay 2020 0 31) (MakeTime 0 0 0 0) = 1580428800000"
    and n: "MakeDate (MakeDay 2020 2 1) (MakeTime 0 0 0 0) = 1583020800000"
    and a: "MakeDate (MakeDay 2020 1 29) (MakeTime 0 0 0 0) = 1582934400000"
    by code_simp+
  have b: "calculateBreakdown (fixedZone 0) 1580428800000 1583020800000
      = \<lparr>years = 0, months = 1, days = 1, hours = 0, minutes = 0, seconds = 0\<rparr>"
    by code_simp
  have "totalMonths (fixedZone 0) 1580428800000 1583020800000 = 2" by code_simp
  moreover have "addMonthsClamped (fixedZone 0) 1580428800000 2 = 1585612800000" by code_simp
  moreover have "addMonthsClamped (fixedZone 0) 1580428800000 1 = 1582934400000" by code_simp
  ultimately have m: "monthAnchor (fixedZone 0) 1580428800000 1583020800000 = 1582934400000"
    by (simp add: monthAnchor_def)
  have t: "totalMonths (fixedZone c) (1580428800000 - c) (1583020800000 - c) = 2"
    using \<open>totalMonths (fixedZone 0) 1580428800000 1583020800000 = 2\<close>
    by (simp add: totalMonths_fixed)
  have "monthAnchor (fixedZone c) (1580428800000 - c) (1583020800000 - c) = 1582934400000 - c"
    using \<open>addMonthsClamped (fixedZone 0) 1580428800000 2 = 1585612800000\<close>
      \<open>addMonthsClamped (fixedZone 0) 1580428800000 1 = 1582934400000\<close>
    by (simp add: monthAnchor_def t addMonthsClamped_shift[of c "1580428800000 - c"])
  then have "calculateBreakdown (fixedZone c)
       (UTC (fixedZone c) (MakeDate (MakeDay 2020 0 31) (MakeTime 0 0 0 0)))
       (UTC (fixedZone c) (MakeDate (MakeDay 2020 2 1) (MakeTime 0 0 0 0)))
     = \<lparr>years = 0, months = 1, days = 1, hours = 0, minutes = 0, seconds = 0\<rparr>
     \<and> monthAnchor (fixedZone c)
       (UTC (fixedZone c) (MakeDate (MakeDay 2020 0 31) (MakeTime 0 0 0 0)))
       (UTC (fixedZone c) (MakeDate (MakeDay 2020 2 1) (MakeTime 0 0 0 0)))
     = UTC (fixedZone c) (MakeDate (MakeDay 2020 1 29) (MakeTime 0 0 0 0))"
    using b by (simp add: s n a UTC_fixed calculateBreakdown_shift[of c])
  with toronto show ?thesis by (intro conjI) (simp_all only:)
qed

text \<open>
  C8. There is a pair of instants for which the loop of lines 75 to 93, which advances the
  anchor with \<^verbatim>\<open>setDate\<close>, \<^verbatim>\<open>setHours\<close> and \<^verbatim>\<open>setMinutes\<close> and subtracts again, differs
  from the four floor divisions of the one gap (\<open>independentUnits\<close>): in the zone
  America/Toronto, for the start 9 November 2011 and now = 2 November 2025 23:30 EST, the
  anchor is 9 October 00:00 EDT, the loop yields 25 days, -1 hours and 30 minutes, and
  the divisions yield 25 days, 0 hours and 30 minutes. The end of daylight saving time
  lies between the anchor and \<open>now\<close>; by \<open>peelUnits_fixed\<close> the two agree for every pair
  of instants in a zone of constant offset. Divisions that do not even reduce the gap
  (\<open>independentQuotients\<close>) differ from the loop as soon as the gap reaches an hour.
\<close>

theorem peel_order_matters_across_dst:
  "BREAK_GROUND_DATE < 1762144200000
   \<and> monthAnchor America_Toronto BREAK_GROUND_DATE 1762144200000 = 1759982400000
   \<and> peelUnits America_Toronto 1759982400000 1762144200000 = (25, - 1, 30, 0)
   \<and> independentUnits (1762144200000 - 1759982400000) = (25, 0, 30, 0)
   \<and> independentQuotients (1762144200000 - 1759982400000) = (25, 600, 36030, 2161800)
   \<and> peelUnits America_Toronto
         (monthAnchor America_Toronto BREAK_GROUND_DATE 1762144200000) 1762144200000
       \<noteq> independentUnits
           (1762144200000 - monthAnchor America_Toronto BREAK_GROUND_DATE 1762144200000)
   \<and> calculateBreakdown America_Toronto BREAK_GROUND_DATE 1762144200000
       = \<lparr>years = 13, months = 11, days = 25, hours = - 1, minutes = 30, seconds = 0\<rparr>"
  by code_simp

text \<open>
  C9. On the store, with valid references: the breakdown that \<open>calculateBreakdown_store\<close>
  returns is \<open>calculateBreakdown\<close> of the time values of its two arguments, so it depends
  on nothing else in the store; a second invocation on the store the first one left
  returns the same breakdown; the percentage is a function of the time values of \<open>now\<close>
  and of the start constant, and an invocation of \<open>calculateBreakdown_store\<close> in between
  does not change it.
\<close>

theorem calculators_deterministic:
  assumes "startDate < length h" "now < length h"
  shows "fst (calculateBreakdown_store z h startDate now)
           = calculateBreakdown z (h ! startDate) (h ! now)
     \<and> fst (calculateBreakdown_store z (snd (calculateBreakdown_store z h startDate now))
              startDate now)
           = fst (calculateBreakdown_store z h startDate now)
     \<and> calculateOverrunPercent_store h now
           = overrunPercent PLANNED_DURATION_MS (h ! breakGroundRef) (h ! now)
     \<and> (breakGroundRef < length h \<longrightarrow>
          calculateOverrunPercent_store (snd (calculateBreakdown_store z h startDate now)) now
            = calculateOverrunPercent_store h now)"
proof -
  obtain ys where s: "calculateBreakdown_store z h startDate now =
      (calculateBreakdown z (h ! startDate) (h ! now), h @ ys)"
    using calculateBreakdown_store_spec[OF assms, of z] by blast
  obtain zs where s2: "calculateBreakdown_store z (h @ ys) startDate now =
      (calculateBreakdown z ((h @ ys) ! startDate) ((h @ ys) ! now), (h @ ys) @ zs)"
    using calculateBreakdown_store_spec[of startDate "h @ ys" now z] assms by auto
  show ?thesis
    using assms by (simp add: s s2 nth_append calculateOverrunPercent_store_pure)
qed

theorem calculators_deterministic_witness:
  "(0::nat) < length [BREAK_GROUND_DATE, PROJECTED_OPEN_DATE, 1762144200000]
   \<and> (2::nat) < length [BREAK_GROUND_DATE, PROJECTED_OPEN_DATE, 1762144200000]
   \<and> fst (calculateBreakdown_store America_Toronto
        (snd (calculateBreakdown_store America_Toronto
               [BREAK_GROUND_DATE, PROJECTED_OPEN_DATE, 1762144200000] 0 2)) 0 2)
       = fst (calculateBreakdown_store America_Toronto
               [BREAK_GROUND_DATE, PROJECTED_OPEN_DATE, 1762144200000] 0 2)
   \<and> calculateOverrunPercent_store
         (snd (calculateBreakdown_store America_Toronto
               [BREAK_GROUND_DATE, PROJECTED_OPEN_DATE, 1762144200000] 0 2)) 2
       = calculateOverrunPercent_store [BREAK_GROUND_DATE, PROJECTED_OPEN_DATE, 1762144200000] 2"
  using calculators_deterministic
    [of 0 "[BREAK_GROUND_DATE, PROJECTED_OPEN_DATE, 1762144200000]" 2 America_Toronto]
  by (simp add: breakGroundRef_def)

text \<open>
  C10. On the store, with valid references: \<open>addMonthsClamped_store\<close> leaves its argument
  and \<open>calculateBreakdown_store\<close> leaves both of its arguments as they were, and so every
  object that existed before the call (they write to the copies they allocate only);
  after any run of ticks from the initial store the two constants of the module hold
  their initial time values.
\<close>

theorem arguments_not_mutated:
  assumes "date < length h" "startDate < length h" "now < length h"
  shows "snd (addMonthsClamped_store z h date N) ! date = h ! date
     \<and> take (length h) (snd (addMonthsClamped_store z h date N)) = h
     \<and> snd (calculateBreakdown_store z h startDate now) ! startDate = h ! startDate
     \<and> snd (calculateBreakdown_store z h startDate now) ! now = h ! now
     \<and> take (length h) (snd (calculateBreakdown_store z h startDate now)) = h
     \<and> take (length initialStore) (ticks z initialStore clocks) = initialStore
     \<and> ticks z initialStore clocks ! breakGroundRef = BREAK_GROUND_DATE
     \<and> ticks z initialStore clocks ! projectedOpenRef = PROJECTED_OPEN_DATE"
proof -
  obtain p where a: "addMonthsClamped_store z h date N =
      (length h, h @ [addMonthsClamped z (h ! date) N, p])"
    using addMonthsClamped_store_spec[OF assms(1), of z N] by blast
  obtain ys where s: "calculateBreakdown_store z h startDate now =
      (calculateBreakdown z (h ! startDate) (h ! now), h @ ys)"
    using calculateBreakdown_store_spec[OF assms(2,3), of z] by blast
  obtain zs where t: "ticks z initialStore clocks = initialStore @ zs"
    using ticks_extend[of initialStore z clocks]
    by (auto simp: initialStore_def breakGroundRef_def projectedOpenRef_def)
  have "(initialStore @ zs) ! breakGroundRef = BREAK_GROUND_DATE"
    "(initialStore @ zs) ! projectedOpenRef = PROJECTED_OPEN_DATE"
    by (simp_all add: initialStore_def breakGroundRef_def projectedOpenRef_def)
  then show ?thesis
    using assms by (simp add: a s t nth_append)
qed

theorem arguments_not_mutated_witness:
  "(0::nat) < length [BREAK_GROUND_DATE, PROJECTED_OPEN_DATE, 1762144200000]
   \<and> (2::nat) < length [BREAK_GROUND_DATE, PROJECTED_OPEN_DATE, 1762144200000]
   \<and> snd (addMonthsClamped_store America_Toronto
         [BREAK_GROUND_DATE, PROJECTED_OPEN_DATE, 1762144200000] 0 167) ! 0 = BREAK_GROUND_DATE
   \<and> snd (calculateBreakdown_store America_Toronto
         [BREAK_GROUND_DATE, PROJECTED_OPEN_DATE, 1762144200000] 0 2) ! 0 = BREAK_GROUND_DATE
   \<and> snd (calculateBreakdown_store America_Toronto
         [BREAK_GROUND_DATE, PROJECTED_OPEN_DATE, 1762144200000] 0 2) ! 2 = 1762144200000
   \<and> ticks America_Toronto initialStore [1762144200000, 1762144201000] ! breakGroundRef
       = BREAK_GROUND_DATE"
  using arguments_not_mutated
    [of 0 "[BREAK_GROUND_DATE, PROJECTED_OPEN_DATE, 1762144200000]" 0 2 America_Toronto 167
        "[1762144200000, 1762144201000]"]
  by simp

end
